theory Spec2Isabelle
  imports Complex_Main "HOL-Library.Multiset"
begin

section \<open>Python values used by the notebook\<close>

text \<open>
  The exceptions the notebook's cells can raise. A cell that raises is modelled by a
  result \<open>Inl e\<close>; a cell that completes returns \<open>Inr\<close> of the values it assigns.
\<close>

datatype error = KeyError | IndexError | TypeError | AttributeError | ValueError string

text \<open>
  A list comprehension whose element expression may raise: the first exception ends
  the comprehension.
\<close>

fun sequence :: "(error + 'a) list \<Rightarrow> error + 'a list" where
  "sequence [] = Inr []"
| "sequence (m # ms) =
     (case m of
        Inl e \<Rightarrow> Inl e
      | Inr x \<Rightarrow> (case sequence ms of Inl e \<Rightarrow> Inl e | Inr xs \<Rightarrow> Inr (x # xs)))"

text \<open>
  A float64 value. Finite values are modelled by the rational they denote (rounding is
  not modelled); the three non-finite values are kept apart because they compare
  differently.
\<close>

datatype float64 = Finite rat | PosInf | NegInf | NaN

text \<open>\<open>x >= c\<close> for a float64 \<open>x\<close> and a finite \<open>c\<close>: any comparison with nan is False.\<close>

fun float_ge :: "float64 \<Rightarrow> rat \<Rightarrow> bool" where
  "float_ge (Finite x) c = (c \<le> x)"
| "float_ge PosInf c = True"
| "float_ge NegInf c = False"
| "float_ge NaN c = False"

text \<open>
  numpy's \<open>a / n\<close> for an integer \<open>a\<close> and a count \<open>n\<close>: division by zero does not raise,
  it yields nan for \<open>0 / 0\<close> and a signed infinity otherwise.
\<close>

definition true_divide :: "int \<Rightarrow> nat \<Rightarrow> float64" where
  "true_divide a n =
     (if n = 0 then (if a = 0 then NaN else if 0 < a then PosInf else NegInf)
      else Finite (of_int a / of_nat n))"

text \<open>
  A two-dimensional array (a numpy array, or a dataset of an HDF5 file): its shape and
  its rows.
\<close>

record 'a ndarray =
  shape0 :: nat
  shape1 :: nat
  rows :: "'a list list"

section \<open>Section 2a: loading the phenotype table\<close>

text \<open>
  Python's \<open>str\<close> of an integer: the decimal digits, most significant first, with a
  leading minus sign for a negative number.
\<close>

definition digit_char :: "nat \<Rightarrow> char" where
  "digit_char d = char_of (48 + d)"

function str_nat :: "nat \<Rightarrow> string" where
  "str_nat n = (if n < 10 then [digit_char n] else str_nat (n div 10) @ [digit_char (n mod 10)])"
  by pat_completeness auto
termination
  by (relation "measure id") auto

declare str_nat.simps [simp del]

definition str_int :: "int \<Rightarrow> string" where
  "str_int i = (if i < 0 then CHR ''-'' # str_nat (nat (- i)) else str_nat (nat i))"

text \<open>
  A data frame with one value column: its rows in order, each the index key and the
  value. \<^verbatim>\<open>pd.read_csv(pheno_file, index_col = 0)\<close> yields the rows of the file; a
  missing value is nan.
\<close>

type_synonym 'k dataframe = "('k \<times> float64) list"

text \<open>\<^verbatim>\<open>pheno.index = pheno.index.map(lambda x: str(int(x)).encode('UTF8'))\<close>\<close>

definition encode_index :: "int dataframe \<Rightarrow> string dataframe" where
  "encode_index pheno = map (\<lambda>(x, v). (str_int x, v)) pheno"

text \<open>\<^verbatim>\<open>pheno = pheno.dropna()\<close>\<close>

definition dropna :: "'k dataframe \<Rightarrow> 'k dataframe" where
  "dropna pheno = filter (\<lambda>r. snd r \<noteq> NaN) pheno"

definition section_2a :: "int dataframe \<Rightarrow> string dataframe" where
  "section_2a csv_rows = dropna (encode_index csv_rows)"

section \<open>Section 3a: the phenotype matrix Y\<close>

text \<open>\<^verbatim>\<open>np.where(arr == x)[0]\<close>: the positions of \<open>x\<close> in \<open>arr\<close>, ascending.\<close>

definition np_where_eq :: "'a list \<Rightarrow> 'a \<Rightarrow> nat list" where
  "np_where_eq arr x = filter (\<lambda>i. arr ! i = x) [0..<length arr]"

text \<open>\<^verbatim>\<open>np.where(arr == x)[0][0]\<close>: IndexError when \<open>x\<close> does not occur.\<close>

definition first_index :: "'a list \<Rightarrow> 'a \<Rightarrow> error + nat" where
  "first_index arr x = (case np_where_eq arr x of [] \<Rightarrow> Inl IndexError | i # _ \<Rightarrow> Inr i)"

text \<open>
  \<^verbatim>\<open>df.loc[keys]\<close> for a list of keys: for each key in turn the rows of \<open>df\<close> with that
  index key; KeyError when a key is not in the index.
\<close>

definition loc :: "'k dataframe \<Rightarrow> 'k list \<Rightarrow> error + 'k dataframe" where
  "loc df keys =
     (if list_all (\<lambda>k. k \<in> set (map fst df)) keys
      then Inr (concat (map (\<lambda>k. filter (\<lambda>r. fst r = k) df) keys))
      else Inl KeyError)"

text \<open>
  Indexing an HDF5 dataset with a list of positions. h5py accepts the list only when
  it is strictly increasing (TypeError otherwise) and in range. An empty list selects
  nothing here; versions of h5py differ on it.
\<close>

definition h5_take :: "'a list \<Rightarrow> nat list \<Rightarrow> error + 'a list" where
  "h5_take ds idx =
     (if \<not> sorted_wrt (<) idx then Inl TypeError
      else if \<not> list_all (\<lambda>i. i < length ds) idx then Inl IndexError
      else Inr (map (\<lambda>i. ds ! i) idx))"

text \<open>\<^verbatim>\<open>Y = pheno.to_numpy()\<close>: one row per row of the frame, one column.\<close>

definition to_numpy :: "'k dataframe \<Rightarrow> float64 ndarray" where
  "to_numpy pheno = \<lparr>shape0 = length pheno, shape1 = 1, rows = map (\<lambda>r. [snd r]) pheno\<rparr>"

text \<open>
  The cell of section 3a. It returns what it assigns: the reordered \<open>pheno\<close>, the
  sorted \<open>acn_indices\<close> and \<open>Y\<close>.
\<close>

definition section_3a ::
  "string dataframe \<Rightarrow> string list \<Rightarrow> error + (string dataframe \<times> nat list \<times> float64 ndarray)" where
  "section_3a pheno accessions =
     (let acn_genotyped = filter (\<lambda>acn. acn \<in> set accessions) (map fst pheno) in
      case loc pheno acn_genotyped of
        Inl e \<Rightarrow> Inl e
      | Inr pheno1 \<Rightarrow>
          (case sequence (map (first_index accessions) (map fst pheno1)) of
             Inl e \<Rightarrow> Inl e
           | Inr found \<Rightarrow>
               (let acn_indices = sort found in
                case h5_take accessions acn_indices of
                  Inl e \<Rightarrow> Inl e
                | Inr acn_order \<Rightarrow>
                    (case loc pheno1 acn_order of
                       Inl e \<Rightarrow> Inl e
                     | Inr pheno2 \<Rightarrow> Inr (pheno2, acn_indices, to_numpy pheno2)))))"

section \<open>Section 3b: the genotype matrix G and the minor allele frequency filter\<close>

text \<open>
  \<^verbatim>\<open>geno_hdf['snps'][:, acn_indices]\<close>: a column selection on an HDF5 dataset, under
  h5py's rule for index lists.
\<close>

definition h5_take_cols :: "'a ndarray \<Rightarrow> nat list \<Rightarrow> error + 'a ndarray" where
  "h5_take_cols ds idx =
     (if \<not> sorted_wrt (<) idx then Inl TypeError
      else if \<not> list_all (\<lambda>i. i < shape1 ds) idx then Inl IndexError
      else Inr \<lparr>shape0 = shape0 ds, shape1 = length idx,
                rows = map (\<lambda>r. map (\<lambda>i. r ! i) idx) (rows ds)\<rparr>)"

text \<open>
  \<^verbatim>\<open>AC1 = G.sum(axis = 1)\<close>, \<^verbatim>\<open>AC0 = G.shape[1] - AC1\<close>,
  \<^verbatim>\<open>MAC = np.min(np.vstack((AC0,AC1)), axis = 0)\<close>, \<^verbatim>\<open>MAF = MAC/G.shape[1]\<close>.
  The sum of int8 calls is accumulated in 64-bit integers, so it is the exact sum.
\<close>

definition AC1 :: "int ndarray \<Rightarrow> int list" where
  "AC1 G = map sum_list (rows G)"

definition AC0 :: "int ndarray \<Rightarrow> int list" where
  "AC0 G = map (\<lambda>a. int (shape1 G) - a) (AC1 G)"

definition MAC :: "int ndarray \<Rightarrow> int list" where
  "MAC G = map2 min (AC0 G) (AC1 G)"

definition MAF :: "int ndarray \<Rightarrow> float64 list" where
  "MAF G = map (\<lambda>m. true_divide m (shape1 G)) (MAC G)"

text \<open>\<^verbatim>\<open>SNP_indices = np.where(MAF >= maf_cutoff)[0]\<close>\<close>

definition SNP_indices :: "int ndarray \<Rightarrow> rat \<Rightarrow> nat list" where
  "SNP_indices G maf_cutoff =
     filter (\<lambda>i. float_ge (MAF G ! i) maf_cutoff) [0..<length (MAF G)]"

text \<open>\<^verbatim>\<open>SNPs_MAF = MAF[SNP_indices]\<close>\<close>

definition SNPs_MAF :: "int ndarray \<Rightarrow> rat \<Rightarrow> float64 list" where
  "SNPs_MAF G maf_cutoff = map (\<lambda>i. MAF G ! i) (SNP_indices G maf_cutoff)"

text \<open>\<^verbatim>\<open>G = G[SNP_indices, :]\<close>\<close>

definition filter_SNPs :: "int ndarray \<Rightarrow> rat \<Rightarrow> int ndarray" where
  "filter_SNPs G maf_cutoff =
     \<lparr>shape0 = length (SNP_indices G maf_cutoff), shape1 = shape1 G,
      rows = map (\<lambda>i. rows G ! i) (SNP_indices G maf_cutoff)\<rparr>"

text \<open>\<^verbatim>\<open>G = G.transpose()\<close>\<close>

definition np_transpose :: "'a ndarray \<Rightarrow> 'a ndarray" where
  "np_transpose A =
     \<lparr>shape0 = shape1 A, shape1 = shape0 A,
      rows = map (\<lambda>j. map (\<lambda>r. r ! j) (rows A)) [0..<shape1 A]\<rparr>"

section \<open>Section 3c: the kinship matrix K\<close>

text \<open>\<^verbatim>\<open>kin_hdf['kinship'][acn_indices, :]\<close>: a row selection on an HDF5 dataset.\<close>

definition h5_take_rows :: "'a ndarray \<Rightarrow> nat list \<Rightarrow> error + 'a ndarray" where
  "h5_take_rows ds idx =
     (if \<not> sorted_wrt (<) idx then Inl TypeError
      else if \<not> list_all (\<lambda>i. i < shape0 ds) idx then Inl IndexError
      else Inr \<lparr>shape0 = length idx, shape1 = shape1 ds,
                rows = map (\<lambda>i. rows ds ! i) idx\<rparr>)"

text \<open>
  \<^verbatim>\<open>A[:, idx]\<close> on a numpy array: any order of positions is accepted, IndexError when
  one is out of range.
\<close>

definition np_take_cols :: "'a ndarray \<Rightarrow> nat list \<Rightarrow> error + 'a ndarray" where
  "np_take_cols A idx =
     (if \<not> list_all (\<lambda>i. i < shape1 A) idx then Inl IndexError
      else Inr \<lparr>shape0 = shape0 A, shape1 = length idx,
                rows = map (\<lambda>r. map (\<lambda>i. r ! i) idx) (rows A)\<rparr>)"

text \<open>
  The cell of section 3c, run on the \<open>pheno\<close> that section 3a left. It returns the
  \<open>acn_indices\<close> it assigns and \<open>K\<close>.
\<close>

definition section_3c ::
  "string dataframe \<Rightarrow> string list \<Rightarrow> float64 ndarray \<Rightarrow> error + (nat list \<times> float64 ndarray)" where
  "section_3c pheno kin_accessions kinship =
     (case sequence (map (first_index kin_accessions) (map fst pheno)) of
        Inl e \<Rightarrow> Inl e
      | Inr found \<Rightarrow>
          (let acn_indices = sort found in
           case h5_take_rows kinship acn_indices of
             Inl e \<Rightarrow> Inl e
           | Inr K1 \<Rightarrow>
               (case np_take_cols K1 acn_indices of
                  Inl e \<Rightarrow> Inl e
                | Inr K \<Rightarrow> Inr (acn_indices, K))))"

section \<open>Sections 3a to 3c in sequence\<close>

text \<open>The two HDF5 files.\<close>

record geno_hdf =
  accessions :: "string list"
  positions :: "int list"
  snps :: "int ndarray"
  chr_regions :: "(int \<times> int) list"

record kin_hdf =
  kin_accessions :: "string list"
  kinship :: "float64 ndarray"

text \<open>
  The cells of sections 3a, 3b and 3c run one after the other. Besides \<open>Y\<close>, \<open>G\<close>
  and \<open>K\<close> (the fields \<open>prep_Y\<close>, \<open>prep_G\<close>, \<open>prep_K\<close>) the result records, for
  each of the three, the accession every row stands for (\<open>Y_acn\<close>, \<open>G_acn\<close>,
  \<open>K_acn\<close>): the index of \<open>pheno\<close> for \<open>Y\<close>, and for \<open>G\<close> and \<open>K\<close> the
  accessions of their file at the positions selected. The notebook does not compute
  these three lists; they record which accession each row of a matrix belongs to.
\<close>

record prepared =
  prep_Y :: "float64 ndarray"
  prep_G :: "int ndarray"
  prep_K :: "float64 ndarray"
  Y_acn :: "string list"
  G_acn :: "string list"
  K_acn :: "string list"

definition prepare ::
  "string dataframe \<Rightarrow> geno_hdf \<Rightarrow> kin_hdf \<Rightarrow> rat \<Rightarrow> error + prepared" where
  "prepare pheno geno kin maf_cutoff =
     (case section_3a pheno (accessions geno) of
        Inl e \<Rightarrow> Inl e
      | Inr (pheno2, acn_indices, Y) \<Rightarrow>
          (case h5_take_cols (snps geno) acn_indices of
             Inl e \<Rightarrow> Inl e
           | Inr G0 \<Rightarrow>
               (case section_3c pheno2 (kin_accessions kin) (kinship kin) of
                  Inl e \<Rightarrow> Inl e
                | Inr (kin_indices, K) \<Rightarrow>
                    Inr \<lparr>prep_Y = Y, prep_G = np_transpose (filter_SNPs G0 maf_cutoff), prep_K = K,
                         Y_acn = map fst pheno2,
                         G_acn = map (\<lambda>i. accessions geno ! i) acn_indices,
                         K_acn = map (\<lambda>i. kin_accessions kin ! i) kin_indices\<rparr>)))"

section \<open>Section 4: checking the input variables\<close>

text \<open>
  What the three cells of section 4 read of a Python object: whether it is a numpy
  array, and its \<open>shape\<close> attribute. An array has a shape of any number of dimensions;
  another object (a data frame, a list) may or may not have the attribute. The second
  component stands for the rest of the object.
\<close>

datatype 'a pyobj = Ndarray "nat list" 'a | Other "nat list option" 'a

fun isinstance_ndarray :: "'a pyobj \<Rightarrow> bool" where
  "isinstance_ndarray (Ndarray s x) = True"
| "isinstance_ndarray (Other s x) = False"

text \<open>\<^verbatim>\<open>X.shape[k]\<close>\<close>

fun shape_item :: "'a pyobj \<Rightarrow> nat \<Rightarrow> error + nat" where
  "shape_item (Ndarray s x) k = (if k < length s then Inr (s ! k) else Inl IndexError)"
| "shape_item (Other (Some s) x) k = (if k < length s then Inr (s ! k) else Inl IndexError)"
| "shape_item (Other None x) k = Inl AttributeError"

text \<open>\<^verbatim>\<open>X.shape\<close> for an object that has the attribute (the empty tuple otherwise).\<close>

fun shape_of :: "'a pyobj \<Rightarrow> nat list" where
  "shape_of (Ndarray s x) = s"
| "shape_of (Other (Some s) x) = s"
| "shape_of (Other None x) = []"

text \<open>The text of a tuple of integers in an f-string.\<close>

fun repr_tuple :: "nat list \<Rightarrow> string" where
  "repr_tuple [] = ''()''"
| "repr_tuple [a] = ''('' @ str_nat a @ '',)''"
| "repr_tuple (a # b # r) =
     ''('' @ str_nat a @ concat (map (\<lambda>x. '', '' @ str_nat x) (b # r)) @ '')''"

text \<open>The variables the cells read, and the lines printed so far.\<close>

record ('a, 'b, 'c) notebook_vars =
  var_Y :: "'a pyobj"
  var_G :: "'b pyobj"
  var_K :: "'c pyobj"
  printed :: "string list"

text \<open>
  The cells of sections 4a, 4b and 4c: the type check, the shape check, then what the
  cell prints.
\<close>

definition section_4a ::
  "('a, 'b, 'c) notebook_vars \<Rightarrow> error + ('a, 'b, 'c) notebook_vars" where
  "section_4a v =
     (if \<not> isinstance_ndarray (var_Y v) then Inl (ValueError ''Y must be a numpy array'')
      else case shape_item (var_Y v) 1 of
        Inl e \<Rightarrow> Inl e
      | Inr c \<Rightarrow>
          if c \<noteq> 1
          then Inl (ValueError (''Number of columns in Y must be 1, but got '' @ str_nat c))
          else (case shape_item (var_Y v) 0 of
                  Inl e \<Rightarrow> Inl e
                | Inr n \<Rightarrow>
                    Inr (v\<lparr>printed := printed v @
                          [''Everything is fine'', ''Number of Accessions is '' @ str_nat n]\<rparr>)))"

definition section_4b ::
  "('a, 'b, 'c) notebook_vars \<Rightarrow> error + ('a, 'b, 'c) notebook_vars" where
  "section_4b v =
     (if \<not> isinstance_ndarray (var_G v) then Inl (ValueError ''G must be a numpy array'')
      else case shape_item (var_G v) 0 of
        Inl e \<Rightarrow> Inl e
      | Inr g0 \<Rightarrow>
          (case shape_item (var_Y v) 0 of
             Inl e \<Rightarrow> Inl e
           | Inr n \<Rightarrow>
               if g0 \<noteq> n
               then Inl (ValueError
                      (''Number of columns in G must be equal to the number of accession ''
                       @ str_nat n @ '', but got '' @ str_nat g0))
               else (case shape_item (var_G v) 1 of
                       Inl e \<Rightarrow> Inl e
                     | Inr g1 \<Rightarrow>
                         Inr (v\<lparr>printed := printed v @
                               [''Everything is fine'', ''Number of SNPs is '' @ str_nat g1]\<rparr>))))"

definition K_message :: "nat \<Rightarrow> nat list \<Rightarrow> string" where
  "K_message n s =
     ''Number of rows and columns in K must be equal to the number of accession ''
     @ str_nat n @ '', but got '' @ repr_tuple s"

definition section_4c ::
  "('a, 'b, 'c) notebook_vars \<Rightarrow> error + ('a, 'b, 'c) notebook_vars" where
  "section_4c v =
     (if \<not> isinstance_ndarray (var_K v) then Inl (ValueError ''K must be a numpy array'')
      else case shape_item (var_K v) 0 of
        Inl e \<Rightarrow> Inl e
      | Inr k0 \<Rightarrow>
          (case shape_item (var_Y v) 0 of
             Inl e \<Rightarrow> Inl e
           | Inr n \<Rightarrow>
               if k0 \<noteq> n then Inl (ValueError (K_message n (shape_of (var_K v))))
               else (case shape_item (var_K v) 1 of
                       Inl e \<Rightarrow> Inl e
                     | Inr k1 \<Rightarrow>
                         if k1 \<noteq> n then Inl (ValueError (K_message n (shape_of (var_K v))))
                         else Inr (v\<lparr>printed := printed v @ [''Everything is fine'']\<rparr>))))"

text \<open>The three cells run in sequence: an exception stops the run.\<close>

definition section_4 ::
  "('a, 'b, 'c) notebook_vars \<Rightarrow> error + ('a, 'b, 'c) notebook_vars" where
  "section_4 v =
     (case section_4a v of
        Inl e \<Rightarrow> Inl e
      | Inr v1 \<Rightarrow> (case section_4b v1 of Inl e \<Rightarrow> Inl e | Inr v2 \<Rightarrow> section_4c v2))"

text \<open>
  The conditions as the specification words them: a check is violated when Y is not a
  numpy array or has a column count other than 1, G is not a numpy array or its row
  count differs from Y's, or K is not a numpy array or is not square with side Y's row
  count. The row count is the first entry of the shape, the column count the second.
\<close>

definition dim :: "'a pyobj \<Rightarrow> nat \<Rightarrow> nat option" where
  "dim X k = (if k < length (shape_of X) then Some (shape_of X ! k) else None)"

definition check_violated :: "('a, 'b, 'c) notebook_vars \<Rightarrow> bool" where
  "check_violated v =
     (\<not> isinstance_ndarray (var_Y v) \<or> dim (var_Y v) 1 \<noteq> Some 1
      \<or> \<not> isinstance_ndarray (var_G v) \<or> dim (var_G v) 0 \<noteq> dim (var_Y v) 0
      \<or> \<not> isinstance_ndarray (var_K v)
      \<or> dim (var_K v) 0 \<noteq> dim (var_Y v) 0 \<or> dim (var_K v) 1 \<noteq> dim (var_Y v) 0)"

text \<open>A matrix: an object that, if it is a numpy array, has two dimensions.\<close>

fun two_dimensional :: "'a pyobj \<Rightarrow> bool" where
  "two_dimensional (Ndarray s x) = (length s = 2)"
| "two_dimensional (Other s x) = True"

text \<open>A run that fails with one of the cells' own messages.\<close>

fun user_facing :: "error + 'a \<Rightarrow> bool" where
  "user_facing (Inl (ValueError msg)) = True"
| "user_facing r = False"

section \<open>Sections 5b and 5d: writing the result tables\<close>

text \<open>
  \<open>bisect\<close> of Python's standard library (\<open>bisect_right\<close>): the loop
  \<^verbatim>\<open>while lo < hi: mid = (lo+hi)//2; if x < a[mid]: hi = mid; else: lo = mid+1\<close>.
\<close>

function bisect_loop :: "int list \<Rightarrow> int \<Rightarrow> nat \<Rightarrow> nat \<Rightarrow> nat" where
  "bisect_loop a x lo hi =
     (if lo < hi
      then (let mid = (lo + hi) div 2
            in if x < a ! mid then bisect_loop a x lo mid else bisect_loop a x (mid + 1) hi)
      else lo)"
  by pat_completeness auto
termination
  by (relation "measure (\<lambda>(a, x, lo, hi). hi - lo)") auto

declare bisect_loop.simps [simp del]

definition bisect :: "int list \<Rightarrow> int \<Rightarrow> nat" where
  "bisect a x = bisect_loop a x 0 (length a)"

text \<open>\<^verbatim>\<open>[bisect(chr_index[:, 1], snp_index) + 1 for snp_index in SNP_indices]\<close>\<close>

definition chromosomes :: "(int \<times> int) list \<Rightarrow> nat list \<Rightarrow> nat list" where
  "chromosomes chr_index snp_idx =
     map (\<lambda>snp_index. bisect (map snd chr_index) (int snp_index) + 1) snp_idx"

text \<open>\<^verbatim>\<open>xs[i]\<close> for a position \<open>i\<close> that is not negative: IndexError out of range.\<close>

definition getitem :: "'a list \<Rightarrow> nat \<Rightarrow> error + 'a" where
  "getitem xs i = (if i < length xs then Inr (xs ! i) else Inl IndexError)"

text \<open>
  What the output cells read of the result of \<open>scan\<close>: the p-values \<open>stats.pv20\<close>, and
  the table \<open>effsizes['h2']\<close> by its columns \<open>effect_type\<close> and \<open>effsize\<close>.
\<close>

record scan_result =
  pv20 :: "float64 list"
  effsizes_h2 :: "(string \<times> float64) list"

text \<open>
  \<^verbatim>\<open>r.effsizes['h2']['effsize'][r.effsizes['h2']['effect_type'] == 'candidate'].tolist()\<close>
\<close>

definition candidate_effsizes :: "scan_result \<Rightarrow> float64 list" where
  "candidate_effsizes r = map snd (filter (\<lambda>e. fst e = ''candidate'') (effsizes_h2 r))"

datatype cell = IntCell int | FloatCell float64

text \<open>A data frame of several columns, and the file \<open>to_csv\<close> writes.\<close>

record table =
  columns :: "string list"
  data :: "cell list list"

record csv_file =
  header :: "string list"
  records :: "cell list list"

text \<open>
  \<^verbatim>\<open>df.to_csv(path, index = ...)\<close>: the header line and one line per row; with
  \<open>index = True\<close> each line starts with the row's index and the header with an empty
  name.
\<close>

definition to_csv :: "table \<Rightarrow> bool \<Rightarrow> csv_file" where
  "to_csv df index =
     (if index
      then \<lparr>header = [] # columns df,
            records = map (\<lambda>(i, r). IntCell (int i) # r) (enumerate 0 (data df))\<rparr>
      else \<lparr>header = columns df, records = data df\<rparr>)"

text \<open>\<^verbatim>\<open>list(zip(chromosomes, positions, pvalues, mafs, effsizes))\<close>, a row per tuple.\<close>

definition zip5 ::
  "nat list \<Rightarrow> int list \<Rightarrow> float64 list \<Rightarrow> float64 list \<Rightarrow> float64 list \<Rightarrow> cell list list" where
  "zip5 cs ps pvs ms es =
     map (\<lambda>(c, p, pv, m, e). [IntCell (int c), IntCell p, FloatCell pv, FloatCell m, FloatCell e])
       (zip cs (zip ps (zip pvs (zip ms es))))"

text \<open>
  The cell of section 5b, given the genotype file it reopens, \<open>SNP_indices\<close> and
  \<open>SNPs_MAF\<close> of section 3b and the result \<open>r\<close> of the scan with K. It returns the
  content it writes to \<open>output_file\<close>.
\<close>

definition section_5b ::
  "geno_hdf \<Rightarrow> nat list \<Rightarrow> float64 list \<Rightarrow> scan_result \<Rightarrow> error + csv_file" where
  "section_5b geno snp_idx snps_maf r =
     (let chr_index = chr_regions geno;
          chrs = chromosomes chr_index snp_idx;
          positions_all = positions geno
      in case sequence (map (\<lambda>snp. getitem positions_all snp) snp_idx) of
           Inl e \<Rightarrow> Inl e
         | Inr poss \<Rightarrow>
             (let mafs = snps_maf;
                  pvalues = pv20 r;
                  effsizes = candidate_effsizes r;
                  gwas_results =
                    \<lparr>columns = [''chr'', ''pos'', ''pvalue'', ''maf'', ''GVE''],
                     data = zip5 chrs poss pvalues mafs effsizes\<rparr>
              in Inr (to_csv gwas_results False)))"

text \<open>
  The cell of section 5d, on the result \<open>r_nc\<close> of the scan without K. It returns the
  content it writes to \<open>output_file_nc\<close>.
\<close>

definition section_5d ::
  "geno_hdf \<Rightarrow> nat list \<Rightarrow> float64 list \<Rightarrow> scan_result \<Rightarrow> error + csv_file" where
  "section_5d geno snp_idx snps_maf r_nc =
     (let chr_index = chr_regions geno;
          chrs = chromosomes chr_index snp_idx;
          positions_all = positions geno
      in case sequence (map (\<lambda>snp. getitem positions_all snp) snp_idx) of
           Inl e \<Rightarrow> Inl e
         | Inr poss \<Rightarrow>
             (let mafs = snps_maf;
                  pvalues = pv20 r_nc;
                  effsizes = candidate_effsizes r_nc;
                  gwas_results =
                    \<lparr>columns = [''chr'', ''pos'', ''pvalue'', ''maf'', ''GVE''],
                     data = zip5 chrs poss pvalues mafs effsizes\<rparr>
              in Inr (to_csv gwas_results False)))"

text \<open>The values of a named column of a written file, top to bottom.\<close>

fun index_of :: "'a \<Rightarrow> 'a list \<Rightarrow> nat option" where
  "index_of x [] = None"
| "index_of x (y # ys) = (if x = y then Some 0 else map_option Suc (index_of x ys))"

definition csv_column :: "string \<Rightarrow> csv_file \<Rightarrow> cell list" where
  "csv_column name f =
     (case index_of name (header f) of
        None \<Rightarrow> []
      | Some j \<Rightarrow> map (\<lambda>l. l ! j) (records f))"

text \<open>
  Chromosome boundaries as the specification words them, cumulative: the first region
  starts at 0, every other region starts where the one before it ends, and no region
  ends before it starts. \<open>genome_length\<close> is the end of the last region.
\<close>

fun contiguous_from :: "int \<Rightarrow> (int \<times> int) list \<Rightarrow> bool" where
  "contiguous_from s [] = True"
| "contiguous_from s ((a, b) # rs) = (a = s \<and> a \<le> b \<and> contiguous_from b rs)"

definition cumulative_regions :: "(int \<times> int) list \<Rightarrow> bool" where
  "cumulative_regions chr_index = contiguous_from 0 chr_index"

definition genome_length :: "(int \<times> int) list \<Rightarrow> int" where
  "genome_length chr_index = (if chr_index = [] then 0 else snd (last chr_index))"

section \<open>A small data set\<close>

text \<open>
  Three SNPs called on four accessions, used to evaluate the definitions: the minor
  allele counts are 1, 2 and 0.
\<close>

definition example_G :: "int ndarray" where
  "example_G = \<lparr>shape0 = 3, shape1 = 4, rows = [[0, 1, 1, 1], [0, 0, 1, 1], [0, 0, 0, 0]]\<rparr>"

text \<open>
  A genotype file with five accessions, three SNPs and two chromosomes (the first SNP on
  chromosome 1, the other two on chromosome 2). \<open>example_G\<close> is its SNP matrix
  restricted to the accessions 108, 139, 265 and 350.
\<close>

definition example_geno :: geno_hdf where
  "example_geno =
     \<lparr>accessions = [''108'', ''139'', ''159'', ''265'', ''350''],
      positions = [101, 139, 203],
      snps = \<lparr>shape0 = 3, shape1 = 5,
               rows = [[0, 1, 0, 1, 1], [0, 0, 1, 1, 1], [0, 0, 1, 0, 0]]\<rparr>,
      chr_regions = [(0, 1), (1, 3)]\<rparr>"

text \<open>Two scan results for the two SNPs that pass a cutoff of one tenth.\<close>

definition example_r :: scan_result where
  "example_r =
     \<lparr>pv20 = [Finite (1 / 2), Finite (1 / 100)],
      effsizes_h2 = [(''covariate'', Finite 86), (''candidate'', Finite 3),
                     (''covariate'', Finite 85), (''candidate'', Finite (- 2))]\<rparr>"

definition example_r_nc :: scan_result where
  "example_r_nc =
     \<lparr>pv20 = [Finite (1 / 4), Finite (1 / 1000)],
      effsizes_h2 = [(''covariate'', Finite 76), (''candidate'', Finite 5),
                     (''covariate'', Finite 75), (''candidate'', Finite (- 4))]\<rparr>"

text \<open>The two files the output cells write for them.\<close>

definition example_output :: csv_file where
  "example_output =
     \<lparr>header = [''chr'', ''pos'', ''pvalue'', ''maf'', ''GVE''],
      records = [[IntCell 1, IntCell 101, FloatCell (Finite (1 / 2)), FloatCell (Finite (1 / 4)),
                  FloatCell (Finite 3)],
                 [IntCell 2, IntCell 139, FloatCell (Finite (1 / 100)), FloatCell (Finite (1 / 2)),
                  FloatCell (Finite (- 2))]]\<rparr>"

definition example_output_nc :: csv_file where
  "example_output_nc =
     \<lparr>header = [''chr'', ''pos'', ''pvalue'', ''maf'', ''GVE''],
      records = [[IntCell 1, IntCell 101, FloatCell (Finite (1 / 4)), FloatCell (Finite (1 / 4)),
                  FloatCell (Finite 5)],
                 [IntCell 2, IntCell 139, FloatCell (Finite (1 / 1000)), FloatCell (Finite (1 / 2)),
                  FloatCell (Finite (- 4))]]\<rparr>"

text \<open>
  A phenotype file of six rows: accession 999 is not genotyped and accession 159 has no
  value. \<open>example_csv_shuffled\<close> holds the same rows in another order, and
  \<open>example_pheno\<close> is the table section 3a leaves.
\<close>

definition example_csv :: "int dataframe" where
  "example_csv =
     [(265, Finite 72), (108, Finite (353 / 4)), (999, Finite 106), (159, NaN),
      (350, Finite 68), (139, Finite 50)]"

definition example_csv_shuffled :: "int dataframe" where
  "example_csv_shuffled =
     [(139, Finite 50), (999, Finite 106), (350, Finite 68), (108, Finite (353 / 4)),
      (159, NaN), (265, Finite 72)]"

definition example_pheno :: "string dataframe" where
  "example_pheno =
     [(''108'', Finite (353 / 4)), (''139'', Finite 50), (''265'', Finite 72), (''350'', Finite 68)]"

text \<open>
  A kinship file over the same five accessions as the genotype file, listed in the
  opposite order; the entry for two accessions is the product of their identifiers'
  ranks, so the diagonal tells the accessions apart: 1 for 108, 4 for 139, 9 for 159,
  16 for 265, 25 for 350.
\<close>

definition example_kin_reversed :: kin_hdf where
  "example_kin_reversed =
     \<lparr>kin_accessions = [''350'', ''265'', ''159'', ''139'', ''108''],
      kinship = \<lparr>shape0 = 5, shape1 = 5,
                  rows = [[Finite 25, Finite 20, Finite 15, Finite 10, Finite 5],
                          [Finite 20, Finite 16, Finite 12, Finite 8, Finite 4],
                          [Finite 15, Finite 12, Finite 9, Finite 6, Finite 3],
                          [Finite 10, Finite 8, Finite 6, Finite 4, Finite 2],
                          [Finite 5, Finite 4, Finite 3, Finite 2, Finite 1]]\<rparr>\<rparr>"

text \<open>
  Variables that pass the checks of section 4, and the same with a one-dimensional
  \<open>G\<close>.
\<close>

definition example_vars :: "(unit, unit, unit) notebook_vars" where
  "example_vars =
     \<lparr>var_Y = Ndarray [4, 1] (), var_G = Ndarray [4, 2] (), var_K = Ndarray [4, 4] (),
      printed = []\<rparr>"

definition example_vars_flat_G :: "(unit, unit, unit) notebook_vars" where
  "example_vars_flat_G =
     \<lparr>var_Y = Ndarray [4, 1] (), var_G = Ndarray [4] (), var_K = Ndarray [4, 4] (),
      printed = []\<rparr>"

section \<open>Properties of the minor allele frequency filter\<close>

lemma length_MAF: "length (MAF G) = length (rows G)"
  by (simp add: MAF_def MAC_def AC0_def AC1_def)

lemma MAF_nth:
  assumes "i < length (rows G)"
  shows "MAF G ! i =
         true_divide (min (int (shape1 G) - sum_list (rows G ! i)) (sum_list (rows G ! i))) (shape1 G)"
  using assms by (simp add: MAF_def MAC_def AC0_def AC1_def)

lemma sum_list_binary:
  fixes row :: "int list"
  assumes "set row \<subseteq> {0, 1}"
  shows "sum_list row = int (count_list row 1)
         \<and> int (length row) - sum_list row = int (count_list row 0)"
  using assms by (induction row) auto

text \<open>
  C3. For a SNP row of binary calls over \<open>n\<close> accessions, the computed minor allele
  frequency is the smaller of the number of 1-alleles and the number of 0-alleles,
  divided by \<open>n\<close>; for \<open>n > 0\<close> it is that finite quotient.
\<close>

theorem MAF_minor_allele_frequency:
  assumes "i < length (rows G)"
    and "set (rows G ! i) \<subseteq> {0, 1}"
    and "length (rows G ! i) = shape1 G"
  shows "MAF G ! i =
           true_divide (int (min (count_list (rows G ! i) 1) (count_list (rows G ! i) 0))) (shape1 G)
         \<and> (0 < shape1 G \<longrightarrow>
              MAF G ! i =
                Finite (of_nat (min (count_list (rows G ! i) 1) (count_list (rows G ! i) 0))
                        / of_nat (shape1 G)))"
proof -
  let ?row = "rows G ! i"
  have s: "sum_list ?row = int (count_list ?row 1)"
    and z: "int (shape1 G) - sum_list ?row = int (count_list ?row 0)"
    using sum_list_binary [OF assms(2)] assms(3) by simp_all
  have m: "min (int (shape1 G) - sum_list ?row) (sum_list ?row)
           = int (min (count_list ?row 1) (count_list ?row 0))"
    unfolding z unfolding s by (simp add: min.commute)
  have first: "MAF G ! i = true_divide (int (min (count_list ?row 1) (count_list ?row 0))) (shape1 G)"
    using MAF_nth [OF assms(1)] m by simp
  show ?thesis
    using first by (simp add: true_divide_def)
qed

theorem MAF_minor_allele_frequency_witness:
  "0 < length (rows example_G) \<and> set (rows example_G ! 0) \<subseteq> {0, 1}
   \<and> length (rows example_G ! 0) = shape1 example_G \<and> 0 < shape1 example_G
   \<and> MAF example_G ! 0 = Finite (1 / 4)"
proof -
  have r: "rows example_G = [[0, 1, 1, 1], [0, 0, 1, 1], [0, 0, 0, 0]]"
    and n: "shape1 example_G = 4"
    by (simp_all add: example_G_def)
  show ?thesis
    using MAF_minor_allele_frequency [of 0 example_G]
    by (simp add: r n true_divide_def)
qed

lemma zip_as_map_nth:
  assumes "length xs = length ys"
  shows "zip xs ys = map (\<lambda>i. (xs ! i, ys ! i)) [0..<length xs]"
  using assms by (intro nth_equalityI) simp_all

lemma select_by_mask:
  assumes "length xs = length ys"
  shows "map (\<lambda>i. xs ! i) (filter (\<lambda>i. P (ys ! i)) [0..<length ys])
         = map fst (filter (\<lambda>(x, y). P y) (zip xs ys))"
proof -
  have "filter (\<lambda>(x, y). P y) (zip xs ys)
        = map (\<lambda>i. (xs ! i, ys ! i)) (filter (\<lambda>i. P (ys ! i)) [0..<length xs])"
    unfolding zip_as_map_nth [OF assms] by (simp add: filter_map comp_def)
  then show ?thesis
    using assms by (simp add: comp_def)
qed

lemma select_self_by_mask:
  "map (\<lambda>i. ys ! i) (filter (\<lambda>i. P (ys ! i)) [0..<length ys]) = filter P ys"
proof -
  have "filter P ys = filter P (map (\<lambda>i. ys ! i) [0..<length ys])"
    by (simp add: map_nth)
  also have "\<dots> = map (\<lambda>i. ys ! i) (filter (\<lambda>i. P (ys ! i)) [0..<length ys])"
    by (simp add: filter_map comp_def)
  finally show ?thesis by simp
qed

lemma length_SNPs_MAF: "length (SNPs_MAF G c) = length (SNP_indices G c)"
  by (simp add: SNPs_MAF_def)

lemma SNP_indices_in_range: "i \<in> set (SNP_indices G c) \<Longrightarrow> i < length (rows G)"
  by (simp add: SNP_indices_def length_MAF)

lemma sorted_SNP_indices: "sorted (SNP_indices G c)"
  by (simp add: SNP_indices_def sorted_wrt_filter)

lemma example_SNP_indices: "SNP_indices example_G (1 / 10) = [0, 1]"
  by (simp add: SNP_indices_def MAF_def MAC_def AC0_def AC1_def true_divide_def example_G_def upt_rec)

text \<open>
  C2. The filter keeps exactly the SNPs whose minor allele frequency is at least
  \<open>maf_cutoff\<close>: a row index is in \<open>SNP_indices\<close> if and only if its MAF passes the
  comparison, each such index once and in ascending order; the rows left in \<open>G\<close> are the
  rows of \<open>G\<close> whose MAF passes, in their order, and \<open>SNPs_MAF\<close> are the MAFs that pass.
\<close>

theorem MAF_filter_exact:
  "(\<forall>i<length (rows G). (i \<in> set (SNP_indices G c)) = float_ge (MAF G ! i) c)
   \<and> set (SNP_indices G c) \<subseteq> {..<length (rows G)}
   \<and> sorted (SNP_indices G c) \<and> distinct (SNP_indices G c)
   \<and> rows (filter_SNPs G c) = map fst (filter (\<lambda>(r, m). float_ge m c) (zip (rows G) (MAF G)))
   \<and> SNPs_MAF G c = filter (\<lambda>m. float_ge m c) (MAF G)"
proof -
  have a: "\<forall>i<length (rows G). (i \<in> set (SNP_indices G c)) = float_ge (MAF G ! i) c"
    by (simp add: SNP_indices_def length_MAF)
  have b: "set (SNP_indices G c) \<subseteq> {..<length (rows G)}"
    by (auto simp: SNP_indices_def length_MAF)
  have s: "sorted (SNP_indices G c)" and d: "distinct (SNP_indices G c)"
    by (simp_all add: SNP_indices_def sorted_wrt_filter)
  have r: "rows (filter_SNPs G c)
           = map fst (filter (\<lambda>(r, m). float_ge m c) (zip (rows G) (MAF G)))"
    using select_by_mask [of "rows G" "MAF G" "\<lambda>m. float_ge m c"]
    by (simp add: filter_SNPs_def SNP_indices_def length_MAF)
  have m: "SNPs_MAF G c = filter (\<lambda>m. float_ge m c) (MAF G)"
    using select_self_by_mask [of "MAF G" "\<lambda>m. float_ge m c"]
    by (simp add: SNPs_MAF_def SNP_indices_def)
  from a b s d r m show ?thesis by blast
qed

theorem MAF_filter_exact_witness:
  "SNP_indices example_G (1 / 10) = [0, 1]
   \<and> rows (filter_SNPs example_G (1 / 10)) = [[0, 1, 1, 1], [0, 0, 1, 1]]
   \<and> SNPs_MAF example_G (1 / 10) = [Finite (1 / 4), Finite (1 / 2)]"
proof -
  have maf: "MAF example_G = [Finite (1 / 4), Finite (1 / 2), Finite 0]"
    by (simp add: MAF_def MAC_def AC0_def AC1_def true_divide_def example_G_def)
  have r: "rows example_G = [[0, 1, 1, 1], [0, 0, 1, 1], [0, 0, 0, 0]]"
    by (simp add: example_G_def)
  have idx: "SNP_indices example_G (1 / 10) = [0, 1]"
    by (simp add: SNP_indices_def maf upt_rec)
  show ?thesis
    using MAF_filter_exact [of example_G "1 / 10"] idx
    by (simp add: maf r)
qed

lemma true_divide_retained:
  assumes "float_ge (true_divide (min (int n - s) s) n) c"
  shows "\<exists>m. true_divide (min (int n - s) s) n = Finite m \<and> c \<le> m \<and> m \<le> 1 / 2"
proof (cases "n = 0")
  case True
  then show ?thesis
    using assms by (auto simp: true_divide_def min_def split: if_splits)
next
  case False
  let ?k = "min (int n - s) s"
  have "2 * ?k \<le> int n" by (simp add: min_def)
  then have "2 * (of_int ?k :: rat) \<le> of_nat n"
    by (metis of_int_le_iff of_int_mult of_int_numeral of_int_of_nat_eq)
  then have "(of_int ?k :: rat) / of_nat n \<le> 1 / 2"
    using False by (simp add: field_simps)
  then show ?thesis
    using assms False by (simp add: true_divide_def)
qed

lemma SNPs_MAF_bounds:
  assumes "x \<in> set (SNPs_MAF G c)"
  shows "\<exists>m. x = Finite m \<and> c \<le> m \<and> m \<le> 1 / 2"
proof -
  from assms obtain i where i: "i < length (rows G)" and ge: "float_ge (MAF G ! i) c"
    and x: "x = MAF G ! i"
    by (auto simp: SNPs_MAF_def SNP_indices_def length_MAF)
  show ?thesis
    using true_divide_retained [of "shape1 G" "sum_list (rows G ! i)" c] ge
    unfolding x MAF_nth [OF i] by simp
qed

section \<open>Properties of the output cells\<close>

lemma sequence_map_Inr: "sequence (map Inr ys) = Inr ys"
  by (induction ys) simp_all

lemma sequence_Inr_D: "sequence ms = Inr ys \<Longrightarrow> ms = map Inr ys"
proof (induction ms arbitrary: ys)
  case Nil
  then show ?case by simp
next
  case (Cons m ms)
  from Cons.prems obtain x xs where m: "m = Inr x" and xs: "sequence ms = Inr xs"
    and ys: "ys = x # xs"
    by (auto split: sum.splits)
  from Cons.IH [OF xs] m ys show ?case by simp
qed

lemma sequence_Inr_iff: "sequence ms = Inr ys \<longleftrightarrow> ms = map Inr ys"
  using sequence_Inr_D sequence_map_Inr by blast

lemma map_getitem_Inr:
  "map (\<lambda>i. getitem xs i) idx = map Inr ys
   \<longleftrightarrow> list_all (\<lambda>i. i < length xs) idx \<and> ys = map (\<lambda>i. xs ! i) idx"
proof (induction idx arbitrary: ys)
  case Nil
  then show ?case by auto
next
  case (Cons i idx)
  show ?case
  proof (cases ys)
    case Nil
    then show ?thesis by simp
  next
    case (Cons y ys')
    then show ?thesis
      using Cons.IH [of ys'] by (auto simp: getitem_def)
  qed
qed

lemma sequence_getitem:
  "sequence (map (\<lambda>i. getitem xs i) idx) = Inr ys
   \<longleftrightarrow> list_all (\<lambda>i. i < length xs) idx \<and> ys = map (\<lambda>i. xs ! i) idx"
  by (simp add: sequence_Inr_iff map_getitem_Inr)

lemma section_5b_Inr:
  "section_5b geno idx mafs r = Inr f \<longleftrightarrow>
     list_all (\<lambda>i. i < length (positions geno)) idx \<and>
     f = \<lparr>header = [''chr'', ''pos'', ''pvalue'', ''maf'', ''GVE''],
          records = zip5 (chromosomes (chr_regions geno) idx)
                      (map (\<lambda>i. positions geno ! i) idx) (pv20 r) mafs
                      (candidate_effsizes r)\<rparr>"
proof (cases "sequence (map (\<lambda>snp. getitem (positions geno) snp) idx)")
  case (Inl e)
  then show ?thesis
    using sequence_getitem [of "positions geno" idx]
    by (auto simp: section_5b_def Let_def)
next
  case (Inr poss)
  then show ?thesis
    using sequence_getitem [of "positions geno" idx poss]
    by (auto simp: section_5b_def Let_def to_csv_def)
qed

lemma section_5d_Inr:
  "section_5d geno idx mafs r = Inr f \<longleftrightarrow>
     list_all (\<lambda>i. i < length (positions geno)) idx \<and>
     f = \<lparr>header = [''chr'', ''pos'', ''pvalue'', ''maf'', ''GVE''],
          records = zip5 (chromosomes (chr_regions geno) idx)
                      (map (\<lambda>i. positions geno ! i) idx) (pv20 r) mafs
                      (candidate_effsizes r)\<rparr>"
proof (cases "sequence (map (\<lambda>snp. getitem (positions geno) snp) idx)")
  case (Inl e)
  then show ?thesis
    using sequence_getitem [of "positions geno" idx]
    by (auto simp: section_5d_def Let_def)
next
  case (Inr poss)
  then show ?thesis
    using sequence_getitem [of "positions geno" idx poss]
    by (auto simp: section_5d_def Let_def to_csv_def)
qed

lemma length_zip5:
  "length (zip5 cs ps pvs ms es)
   = min (length cs) (min (length ps) (min (length pvs) (min (length ms) (length es))))"
  by (simp add: zip5_def)

lemma zip5_row:
  assumes "l \<in> set (zip5 cs ps pvs ms es)"
  shows "\<exists>c p pv m e. l = [IntCell (int c), IntCell p, FloatCell pv, FloatCell m, FloatCell e]
           \<and> c \<in> set cs \<and> p \<in> set ps \<and> pv \<in> set pvs \<and> m \<in> set ms \<and> e \<in> set es"
proof -
  from assms obtain c p pv m e
    where z: "(c, p, pv, m, e) \<in> set (zip cs (zip ps (zip pvs (zip ms es))))"
      and l: "l = [IntCell (int c), IntCell p, FloatCell pv, FloatCell m, FloatCell e]"
    by (auto simp: zip5_def)
  from z have "c \<in> set cs" and z1: "(p, pv, m, e) \<in> set (zip ps (zip pvs (zip ms es)))"
    by (auto dest: set_zip_leftD set_zip_rightD)
  from z1 have "p \<in> set ps" and z2: "(pv, m, e) \<in> set (zip pvs (zip ms es))"
    by (auto dest: set_zip_leftD set_zip_rightD)
  from z2 have "pv \<in> set pvs" and z3: "(m, e) \<in> set (zip ms es)"
    by (auto dest: set_zip_leftD set_zip_rightD)
  from z3 have "m \<in> set ms" and "e \<in> set es"
    by (auto dest: set_zip_leftD set_zip_rightD)
  with l \<open>c \<in> set cs\<close> \<open>p \<in> set ps\<close> \<open>pv \<in> set pvs\<close> show ?thesis by blast
qed

lemma zip5_columns:
  assumes "length cs = n" "length ps = n" "length pvs = n" "length ms = n" "length es = n"
  shows "map (\<lambda>l. l ! 0) (zip5 cs ps pvs ms es) = map (\<lambda>c. IntCell (int c)) cs"
    and "map (\<lambda>l. l ! 1) (zip5 cs ps pvs ms es) = map IntCell ps"
    and "map (\<lambda>l. l ! 2) (zip5 cs ps pvs ms es) = map FloatCell pvs"
    and "map (\<lambda>l. l ! 3) (zip5 cs ps pvs ms es) = map FloatCell ms"
    and "map (\<lambda>l. l ! 4) (zip5 cs ps pvs ms es) = map FloatCell es"
  using assms by (auto simp: zip5_def intro!: nth_equalityI)

lemma csv_column_results:
  assumes "header f = [''chr'', ''pos'', ''pvalue'', ''maf'', ''GVE'']"
  shows "csv_column ''chr'' f = map (\<lambda>l. l ! 0) (records f)"
    and "csv_column ''pos'' f = map (\<lambda>l. l ! 1) (records f)"
    and "csv_column ''pvalue'' f = map (\<lambda>l. l ! 2) (records f)"
    and "csv_column ''maf'' f = map (\<lambda>l. l ! 3) (records f)"
    and "csv_column ''GVE'' f = map (\<lambda>l. l ! 4) (records f)"
  using assms by (simp_all add: csv_column_def eval_nat_numeral)

lemma SNP_indices_positions:
  assumes "length (rows G) \<le> length (positions geno)"
  shows "list_all (\<lambda>i. i < length (positions geno)) (SNP_indices G c)"
  using assms SNP_indices_in_range [of _ G c] by (fastforce simp: list_all_iff)

lemma example_subset:
  "h5_take_cols (snps example_geno) [0, 1, 3, 4] = Inr example_G"
  by code_simp

lemma example_section_5b:
  "section_5b example_geno (SNP_indices example_G (1 / 10)) (SNPs_MAF example_G (1 / 10)) example_r
   = Inr example_output"
  by code_simp

lemma example_section_5d:
  "section_5d example_geno (SNP_indices example_G (1 / 10)) (SNPs_MAF example_G (1 / 10)) example_r_nc
   = Inr example_output_nc"
  by code_simp

text \<open>
  C4. When the scan result holds one p-value and one candidate effect size per
  retained SNP, each of the two files written has one record per entry of
  \<open>SNP_indices\<close>; and both cells do write their file when the positions dataset has an
  entry for every SNP row.
\<close>

theorem result_row_count:
  assumes "length (pv20 r) = length (SNP_indices G c)"
    and "length (candidate_effsizes r) = length (SNP_indices G c)"
  shows "(section_5b geno (SNP_indices G c) (SNPs_MAF G c) r = Inr f
            \<longrightarrow> length (records f) = length (SNP_indices G c))
         \<and> (section_5d geno (SNP_indices G c) (SNPs_MAF G c) r = Inr f'
            \<longrightarrow> length (records f') = length (SNP_indices G c))
         \<and> (length (rows G) \<le> length (positions geno)
            \<longrightarrow> (\<exists>g. section_5b geno (SNP_indices G c) (SNPs_MAF G c) r = Inr g)
              \<and> (\<exists>g. section_5d geno (SNP_indices G c) (SNPs_MAF G c) r = Inr g))"
proof -
  have n: "length (zip5 (chromosomes (chr_regions geno) (SNP_indices G c))
                     (map (\<lambda>i. positions geno ! i) (SNP_indices G c)) (pv20 r)
                     (SNPs_MAF G c) (candidate_effsizes r))
           = length (SNP_indices G c)"
    using assms by (simp add: length_zip5 chromosomes_def length_SNPs_MAF)
  have b: "section_5b geno (SNP_indices G c) (SNPs_MAF G c) r = Inr f
            \<longrightarrow> length (records f) = length (SNP_indices G c)"
    using n by (auto simp: section_5b_Inr)
  have d: "section_5d geno (SNP_indices G c) (SNPs_MAF G c) r = Inr f'
            \<longrightarrow> length (records f') = length (SNP_indices G c)"
    using n by (auto simp: section_5d_Inr)
  have t: "length (rows G) \<le> length (positions geno)
            \<longrightarrow> (\<exists>g. section_5b geno (SNP_indices G c) (SNPs_MAF G c) r = Inr g)
              \<and> (\<exists>g. section_5d geno (SNP_indices G c) (SNPs_MAF G c) r = Inr g)"
    using SNP_indices_positions [of G geno c] by (simp add: section_5b_Inr section_5d_Inr)
  from b d t show ?thesis by blast
qed

theorem result_row_count_witness:
  "length (pv20 example_r) = length (SNP_indices example_G (1 / 10))
   \<and> length (candidate_effsizes example_r) = length (SNP_indices example_G (1 / 10))
   \<and> section_5b example_geno (SNP_indices example_G (1 / 10)) (SNPs_MAF example_G (1 / 10)) example_r
       = Inr example_output
   \<and> length (rows example_G) \<le> length (positions example_geno)
   \<and> length (records example_output) = 2"
proof -
  have p: "length (pv20 example_r) = length (SNP_indices example_G (1 / 10))"
    and e: "length (candidate_effsizes example_r) = length (SNP_indices example_G (1 / 10))"
    by (simp_all add: example_SNP_indices example_r_def candidate_effsizes_def)
  have l: "length (rows example_G) \<le> length (positions example_geno)"
    by (simp add: example_G_def example_geno_def)
  show ?thesis
    using result_row_count [OF p e, of example_geno example_output] p e l example_section_5b
    by (simp add: example_SNP_indices)
qed

text \<open>
  C6. Each of the two files written has the header chr, pos, pvalue, maf, GVE, in that
  order, and every record has five fields: there is no index column.
\<close>

theorem output_columns:
  "(section_5b geno idx mafs r = Inr f
      \<longrightarrow> header f = [''chr'', ''pos'', ''pvalue'', ''maf'', ''GVE'']
          \<and> (\<forall>l\<in>set (records f). length l = 5))
   \<and> (section_5d geno idx mafs r_nc = Inr f'
      \<longrightarrow> header f' = [''chr'', ''pos'', ''pvalue'', ''maf'', ''GVE'']
          \<and> (\<forall>l\<in>set (records f'). length l = 5))"
proof -
  have w: "length l = 5" if "l \<in> set (zip5 cs ps pvs ms es)" for l cs ps pvs ms es
    using zip5_row [OF that] by auto
  have b: "section_5b geno idx mafs r = Inr f
      \<longrightarrow> header f = [''chr'', ''pos'', ''pvalue'', ''maf'', ''GVE'']
          \<and> (\<forall>l\<in>set (records f). length l = 5)"
    using w by (auto simp: section_5b_Inr)
  have d: "section_5d geno idx mafs r_nc = Inr f'
      \<longrightarrow> header f' = [''chr'', ''pos'', ''pvalue'', ''maf'', ''GVE'']
          \<and> (\<forall>l\<in>set (records f'). length l = 5)"
    using w by (auto simp: section_5d_Inr)
  from b d show ?thesis by blast
qed

theorem output_columns_witness:
  "section_5b example_geno (SNP_indices example_G (1 / 10)) (SNPs_MAF example_G (1 / 10)) example_r
     = Inr example_output
   \<and> section_5d example_geno (SNP_indices example_G (1 / 10)) (SNPs_MAF example_G (1 / 10))
       example_r_nc = Inr example_output_nc
   \<and> header example_output = [''chr'', ''pos'', ''pvalue'', ''maf'', ''GVE'']
   \<and> header example_output_nc = [''chr'', ''pos'', ''pvalue'', ''maf'', ''GVE'']
   \<and> map length (records example_output) = [5, 5]
   \<and> map length (records example_output_nc) = [5, 5]"
proof -
  have l: "map length (records example_output) = [5, 5]"
    "map length (records example_output_nc) = [5, 5]"
    by (simp_all add: example_output_def example_output_nc_def)
  show ?thesis
    using output_columns [of example_geno "SNP_indices example_G (1 / 10)"
        "SNPs_MAF example_G (1 / 10)" example_r example_output example_r_nc example_output_nc]
      example_section_5b example_section_5d l
    by simp
qed

lemma maf_column_bounds:
  assumes "header f = [''chr'', ''pos'', ''pvalue'', ''maf'', ''GVE'']"
    and "records f = zip5 cs ps pvs (SNPs_MAF G c) es"
    and "x \<in> set (csv_column ''maf'' f)"
  shows "\<exists>m. x = FloatCell (Finite m) \<and> c \<le> m \<and> m \<le> 1 / 2"
proof -
  from assms obtain l where l: "l \<in> set (zip5 cs ps pvs (SNPs_MAF G c) es)" and x: "x = l ! 3"
    by (auto simp: csv_column_results(4))
  from zip5_row [OF l] x obtain v where v: "v \<in> set (SNPs_MAF G c)" and xv: "x = FloatCell v"
    by (auto simp: eval_nat_numeral)
  from SNPs_MAF_bounds [OF v] xv show ?thesis by auto
qed

text \<open>
  C9. Every value in the maf column of either file written is a finite number between
  \<open>maf_cutoff\<close> and one half.
\<close>

theorem output_maf_bounds:
  "(section_5b geno (SNP_indices G c) (SNPs_MAF G c) r = Inr f
      \<longrightarrow> (\<forall>x\<in>set (csv_column ''maf'' f).
             \<exists>m. x = FloatCell (Finite m) \<and> c \<le> m \<and> m \<le> 1 / 2))
   \<and> (section_5d geno (SNP_indices G c) (SNPs_MAF G c) r_nc = Inr f'
      \<longrightarrow> (\<forall>x\<in>set (csv_column ''maf'' f').
             \<exists>m. x = FloatCell (Finite m) \<and> c \<le> m \<and> m \<le> 1 / 2))"
proof -
  have b: "section_5b geno (SNP_indices G c) (SNPs_MAF G c) r = Inr f
      \<longrightarrow> (\<forall>x\<in>set (csv_column ''maf'' f).
             \<exists>m. x = FloatCell (Finite m) \<and> c \<le> m \<and> m \<le> 1 / 2)"
  proof (intro impI ballI)
    fix x
    assume out: "section_5b geno (SNP_indices G c) (SNPs_MAF G c) r = Inr f"
      and x: "x \<in> set (csv_column ''maf'' f)"
    from out have "header f = [''chr'', ''pos'', ''pvalue'', ''maf'', ''GVE'']"
      and "records f = zip5 (chromosomes (chr_regions geno) (SNP_indices G c))
                        (map (\<lambda>i. positions geno ! i) (SNP_indices G c)) (pv20 r)
                        (SNPs_MAF G c) (candidate_effsizes r)"
      by (simp_all add: section_5b_Inr)
    from maf_column_bounds [OF this x]
    show "\<exists>m. x = FloatCell (Finite m) \<and> c \<le> m \<and> m \<le> 1 / 2" .
  qed
  have d: "section_5d geno (SNP_indices G c) (SNPs_MAF G c) r_nc = Inr f'
      \<longrightarrow> (\<forall>x\<in>set (csv_column ''maf'' f').
             \<exists>m. x = FloatCell (Finite m) \<and> c \<le> m \<and> m \<le> 1 / 2)"
  proof (intro impI ballI)
    fix x
    assume out: "section_5d geno (SNP_indices G c) (SNPs_MAF G c) r_nc = Inr f'"
      and x: "x \<in> set (csv_column ''maf'' f')"
    from out have "header f' = [''chr'', ''pos'', ''pvalue'', ''maf'', ''GVE'']"
      and "records f' = zip5 (chromosomes (chr_regions geno) (SNP_indices G c))
                        (map (\<lambda>i. positions geno ! i) (SNP_indices G c)) (pv20 r_nc)
                        (SNPs_MAF G c) (candidate_effsizes r_nc)"
      by (simp_all add: section_5d_Inr)
    from maf_column_bounds [OF this x]
    show "\<exists>m. x = FloatCell (Finite m) \<and> c \<le> m \<and> m \<le> 1 / 2" .
  qed
  from b d show ?thesis by blast
qed

theorem output_maf_bounds_witness:
  "section_5b example_geno (SNP_indices example_G (1 / 10)) (SNPs_MAF example_G (1 / 10)) example_r
     = Inr example_output
   \<and> csv_column ''maf'' example_output = [FloatCell (Finite (1 / 4)), FloatCell (Finite (1 / 2))]
   \<and> (1 / 10 :: rat) \<le> 1 / 4 \<and> (1 / 4 :: rat) \<le> 1 / 2"
proof -
  have col: "csv_column ''maf'' example_output = [FloatCell (Finite (1 / 4)), FloatCell (Finite (1 / 2))]"
    by (simp add: csv_column_def example_output_def)
  show ?thesis
    using output_maf_bounds [of example_geno example_G "1 / 10" example_r example_output]
      example_section_5b col
    by simp
qed

text \<open>
  C10. When both scans return one p-value and one candidate effect size per retained
  SNP, the two files written have the same number of records and the same chr, pos and
  maf columns, record for record.
\<close>

theorem outputs_agree:
  assumes "section_5b geno (SNP_indices G c) (SNPs_MAF G c) r = Inr f"
    and "section_5d geno (SNP_indices G c) (SNPs_MAF G c) r_nc = Inr f_nc"
    and "length (pv20 r) = length (SNP_indices G c)"
    and "length (candidate_effsizes r) = length (SNP_indices G c)"
    and "length (pv20 r_nc) = length (SNP_indices G c)"
    and "length (candidate_effsizes r_nc) = length (SNP_indices G c)"
  shows "csv_column ''chr'' f = csv_column ''chr'' f_nc
         \<and> csv_column ''pos'' f = csv_column ''pos'' f_nc
         \<and> csv_column ''maf'' f = csv_column ''maf'' f_nc
         \<and> length (records f) = length (records f_nc)"
proof -
  let ?n = "length (SNP_indices G c)"
  let ?cs = "chromosomes (chr_regions geno) (SNP_indices G c)"
  let ?ps = "map (\<lambda>i. positions geno ! i) (SNP_indices G c)"
  have hf: "header f = [''chr'', ''pos'', ''pvalue'', ''maf'', ''GVE'']"
    and rf: "records f = zip5 ?cs ?ps (pv20 r) (SNPs_MAF G c) (candidate_effsizes r)"
    using assms(1) by (simp_all add: section_5b_Inr)
  have hg: "header f_nc = [''chr'', ''pos'', ''pvalue'', ''maf'', ''GVE'']"
    and rg: "records f_nc = zip5 ?cs ?ps (pv20 r_nc) (SNPs_MAF G c) (candidate_effsizes r_nc)"
    using assms(2) by (simp_all add: section_5d_Inr)
  have lens: "length ?cs = ?n" "length ?ps = ?n" "length (SNPs_MAF G c) = ?n"
    by (simp_all add: chromosomes_def length_SNPs_MAF)
  note cf = zip5_columns [OF lens(1) lens(2) assms(3) lens(3) assms(4)]
  note cg = zip5_columns [OF lens(1) lens(2) assms(5) lens(3) assms(6)]
  have "csv_column ''chr'' f = map (\<lambda>c. IntCell (int c)) ?cs"
    unfolding csv_column_results(1) [OF hf] rf by (rule cf(1))
  moreover have "csv_column ''chr'' f_nc = map (\<lambda>c. IntCell (int c)) ?cs"
    unfolding csv_column_results(1) [OF hg] rg by (rule cg(1))
  moreover have "csv_column ''pos'' f = map IntCell ?ps"
    unfolding csv_column_results(2) [OF hf] rf by (rule cf(2))
  moreover have "csv_column ''pos'' f_nc = map IntCell ?ps"
    unfolding csv_column_results(2) [OF hg] rg by (rule cg(2))
  moreover have "csv_column ''maf'' f = map FloatCell (SNPs_MAF G c)"
    unfolding csv_column_results(4) [OF hf] rf by (rule cf(4))
  moreover have "csv_column ''maf'' f_nc = map FloatCell (SNPs_MAF G c)"
    unfolding csv_column_results(4) [OF hg] rg by (rule cg(4))
  moreover have "length (records f) = length (records f_nc)"
    using assms(3-6) lens by (simp add: rf rg length_zip5)
  ultimately show ?thesis by simp
qed

theorem outputs_agree_witness:
  "section_5b example_geno (SNP_indices example_G (1 / 10)) (SNPs_MAF example_G (1 / 10)) example_r
     = Inr example_output
   \<and> section_5d example_geno (SNP_indices example_G (1 / 10)) (SNPs_MAF example_G (1 / 10))
       example_r_nc = Inr example_output_nc
   \<and> length (pv20 example_r) = length (SNP_indices example_G (1 / 10))
   \<and> length (candidate_effsizes example_r) = length (SNP_indices example_G (1 / 10))
   \<and> length (pv20 example_r_nc) = length (SNP_indices example_G (1 / 10))
   \<and> length (candidate_effsizes example_r_nc) = length (SNP_indices example_G (1 / 10))
   \<and> csv_column ''chr'' example_output = csv_column ''chr'' example_output_nc
   \<and> csv_column ''pos'' example_output = csv_column ''pos'' example_output_nc
   \<and> csv_column ''maf'' example_output = csv_column ''maf'' example_output_nc
   \<and> csv_column ''pvalue'' example_output \<noteq> csv_column ''pvalue'' example_output_nc"
proof -
  have p: "length (pv20 example_r) = length (SNP_indices example_G (1 / 10))"
    and e: "length (candidate_effsizes example_r) = length (SNP_indices example_G (1 / 10))"
    and p': "length (pv20 example_r_nc) = length (SNP_indices example_G (1 / 10))"
    and e': "length (candidate_effsizes example_r_nc) = length (SNP_indices example_G (1 / 10))"
    by (simp_all add: example_SNP_indices example_r_def example_r_nc_def candidate_effsizes_def)
  have ne: "csv_column ''pvalue'' example_output \<noteq> csv_column ''pvalue'' example_output_nc"
    by (simp add: csv_column_def example_output_def example_output_nc_def)
  show ?thesis
    using outputs_agree [OF example_section_5b example_section_5d p e p' e'] 
      example_section_5b example_section_5d p e p' e' ne
    by simp
qed

section \<open>Chromosome attribution\<close>

lemma bisect_loop_spec:
  assumes "sorted a" "lo \<le> hi" "hi \<le> length a"
    and "\<forall>k<lo. a ! k \<le> x"
    and "\<forall>k. hi \<le> k \<and> k < length a \<longrightarrow> x < a ! k"
  shows "lo \<le> bisect_loop a x lo hi \<and> bisect_loop a x lo hi \<le> hi
         \<and> (\<forall>k<bisect_loop a x lo hi. a ! k \<le> x)
         \<and> (\<forall>k. bisect_loop a x lo hi \<le> k \<and> k < length a \<longrightarrow> x < a ! k)"
  using assms
proof (induction a x lo hi rule: bisect_loop.induct)
  case (1 a x lo hi)
  show ?case
  proof (cases "lo < hi")
    case False
    with "1.prems" have "lo = hi" by simp
    with "1.prems" False show ?thesis by (simp add: bisect_loop.simps [of a x hi hi])
  next
    case True
    define mid where "mid = (lo + hi) div 2"
    have mid: "lo \<le> mid" "mid < hi" using True by (simp_all add: mid_def)
    show ?thesis
    proof (cases "x < a ! mid")
      case lt: True
      have up: "\<forall>k. mid \<le> k \<and> k < length a \<longrightarrow> x < a ! k"
      proof (intro allI impI)
        fix k assume "mid \<le> k \<and> k < length a"
        then have "a ! mid \<le> a ! k"
          using \<open>sorted a\<close> by (simp add: sorted_nth_mono)
        with lt show "x < a ! k" by simp
      qed
      have eq: "bisect_loop a x lo hi = bisect_loop a x lo mid"
        using True lt by (subst bisect_loop.simps) (simp add: mid_def Let_def)
      have "lo \<le> bisect_loop a x lo mid \<and> bisect_loop a x lo mid \<le> mid
         \<and> (\<forall>k<bisect_loop a x lo mid. a ! k \<le> x)
         \<and> (\<forall>k. bisect_loop a x lo mid \<le> k \<and> k < length a \<longrightarrow> x < a ! k)"
        using "1.IH"(1) [OF True mid_def lt \<open>sorted a\<close>] mid "1.prems" up by simp
      then show ?thesis unfolding eq using mid by auto
    next
      case ge: False
      have low: "\<forall>k<mid + 1. a ! k \<le> x"
      proof (intro allI impI)
        fix k assume "k < mid + 1"
        then have "a ! k \<le> a ! mid"
          using \<open>sorted a\<close> mid "1.prems"(3) by (simp add: sorted_nth_mono)
        with ge show "a ! k \<le> x" by simp
      qed
      have eq: "bisect_loop a x lo hi = bisect_loop a x (mid + 1) hi"
        using True ge by (subst bisect_loop.simps) (simp add: mid_def Let_def)
      have "mid + 1 \<le> bisect_loop a x (mid + 1) hi \<and> bisect_loop a x (mid + 1) hi \<le> hi
         \<and> (\<forall>k<bisect_loop a x (mid + 1) hi. a ! k \<le> x)
         \<and> (\<forall>k. bisect_loop a x (mid + 1) hi \<le> k \<and> k < length a \<longrightarrow> x < a ! k)"
        using "1.IH"(2) [OF True mid_def ge \<open>sorted a\<close>] mid "1.prems" low by simp
      then show ?thesis unfolding eq using mid by auto
    qed
  qed
qed

lemma bisect_spec:
  assumes "sorted a"
  shows "bisect a x \<le> length a
         \<and> (\<forall>k<bisect a x. a ! k \<le> x)
         \<and> (\<forall>k. bisect a x \<le> k \<and> k < length a \<longrightarrow> x < a ! k)"
  using bisect_loop_spec [of a 0 "length a" x] assms by (simp add: bisect_def)

lemma bisect_mono:
  assumes "sorted a" "x \<le> y"
  shows "bisect a x \<le> bisect a y"
proof (rule ccontr)
  assume "\<not> bisect a x \<le> bisect a y"
  then have lt: "bisect a y < bisect a x" by simp
  have "bisect a x \<le> length a" using bisect_spec [OF assms(1), of x] by simp
  with lt have "bisect a y < length a" by simp
  then have "y < a ! bisect a y" using bisect_spec [OF assms(1), of y] by simp
  moreover have "a ! bisect a y \<le> x" using bisect_spec [OF assms(1), of x] lt by simp
  ultimately show False using assms(2) by simp
qed

lemma contiguous_from_sorted:
  "contiguous_from s rs \<Longrightarrow> sorted (map snd rs) \<and> (\<forall>e\<in>set (map snd rs). s \<le> e)"
proof (induction rs arbitrary: s)
  case Nil
  then show ?case by simp
next
  case (Cons r rs)
  obtain a b where r: "r = (a, b)" by (cases r)
  from Cons.prems r have ab: "a = s" "a \<le> b" and rest: "contiguous_from b rs" by simp_all
  from Cons.IH [OF rest] ab r show ?case by fastforce
qed

lemma contiguous_from_start:
  "contiguous_from s rs \<Longrightarrow> k < length rs \<Longrightarrow>
   fst (rs ! k) = (if k = 0 then s else snd (rs ! (k - 1)))"
proof (induction rs arbitrary: s k)
  case Nil
  then show ?case by simp
next
  case (Cons r rs)
  obtain a b where r: "r = (a, b)" by (cases r)
  from Cons.prems r have ab: "a = s" and rest: "contiguous_from b rs" by simp_all
  show ?case
  proof (cases k)
    case 0
    with r ab show ?thesis by simp
  next
    case (Suc j)
    with Cons.prems have j: "j < length rs" by simp
    from Cons.IH [OF rest j] Suc r show ?thesis by (cases j) simp_all
  qed
qed

lemma chromosome_region:
  assumes cum: "cumulative_regions chr_index"
    and lt: "int i < genome_length chr_index"
  shows "bisect (map snd chr_index) (int i) < length chr_index
         \<and> fst (chr_index ! bisect (map snd chr_index) (int i)) \<le> int i
         \<and> int i < snd (chr_index ! bisect (map snd chr_index) (int i))"
proof -
  let ?ends = "map snd chr_index"
  let ?r = "bisect ?ends (int i)"
  from lt have ne: "chr_index \<noteq> []" and last: "int i < snd (last chr_index)"
    by (auto simp: genome_length_def split: if_splits)
  have srt: "sorted ?ends"
    using cum contiguous_from_sorted unfolding cumulative_regions_def by blast
  note spec = bisect_spec [OF srt, of "int i"]
  have r_lt: "?r < length chr_index"
  proof (rule ccontr)
    assume "\<not> ?r < length chr_index"
    with spec have "?r = length chr_index" by simp
    with spec ne have "?ends ! (length chr_index - 1) \<le> int i" by simp
    with ne have "snd (last chr_index) \<le> int i" by (simp add: last_conv_nth)
    with last show False by simp
  qed
  then have hi: "int i < snd (chr_index ! ?r)" using spec by simp
  have lo: "fst (chr_index ! ?r) \<le> int i"
  proof (cases "?r = 0")
    case True
    then show ?thesis
      using contiguous_from_start [of 0 chr_index ?r] cum r_lt
      by (simp add: cumulative_regions_def)
  next
    case False
    then have "?ends ! (?r - 1) \<le> int i" using spec by simp
    then show ?thesis
      using contiguous_from_start [of 0 chr_index ?r] cum r_lt False
      by (simp add: cumulative_regions_def)
  qed
  from r_lt lo hi show ?thesis by simp
qed

lemma chromosomes_sorted:
  assumes "sorted (map snd chr_index)" "sorted idx"
  shows "sorted (chromosomes chr_index idx)"
  using assms(2)
proof (induction idx)
  case Nil
  then show ?case by (simp add: chromosomes_def)
next
  case (Cons i idx)
  then have "sorted (chromosomes chr_index idx)" and "\<forall>j\<in>set idx. i \<le> j" by simp_all
  then show ?case
    using bisect_mono [OF assms(1)] by (auto simp: chromosomes_def)
qed

text \<open>
  C5. With cumulative chromosome boundaries that cover every SNP row, the chromosome
  numbers assigned to the retained SNPs, taken in the ascending order of
  \<open>SNP_indices\<close>, never decrease, and each retained SNP's index lies in the region
  recorded for the chromosome it is assigned: at or after the region's start and before
  its end.
\<close>

theorem chromosome_attribution:
  assumes "cumulative_regions chr_index"
    and "int (length (rows G)) \<le> genome_length chr_index"
  shows "sorted (chromosomes chr_index (SNP_indices G c))
         \<and> (\<forall>j<length (SNP_indices G c).
              1 \<le> chromosomes chr_index (SNP_indices G c) ! j
              \<and> chromosomes chr_index (SNP_indices G c) ! j \<le> length chr_index
              \<and> fst (chr_index ! (chromosomes chr_index (SNP_indices G c) ! j - 1))
                  \<le> int (SNP_indices G c ! j)
              \<and> int (SNP_indices G c ! j)
                  < snd (chr_index ! (chromosomes chr_index (SNP_indices G c) ! j - 1)))"
proof -
  have srt: "sorted (map snd chr_index)"
    using assms(1) contiguous_from_sorted unfolding cumulative_regions_def by blast
  have mono: "sorted (chromosomes chr_index (SNP_indices G c))"
    by (rule chromosomes_sorted [OF srt sorted_SNP_indices])
  have each: "1 \<le> chromosomes chr_index (SNP_indices G c) ! j
              \<and> chromosomes chr_index (SNP_indices G c) ! j \<le> length chr_index
              \<and> fst (chr_index ! (chromosomes chr_index (SNP_indices G c) ! j - 1))
                  \<le> int (SNP_indices G c ! j)
              \<and> int (SNP_indices G c ! j)
                  < snd (chr_index ! (chromosomes chr_index (SNP_indices G c) ! j - 1))"
    if j: "j < length (SNP_indices G c)" for j
  proof -
    have "SNP_indices G c ! j < length (rows G)"
      using SNP_indices_in_range [of "SNP_indices G c ! j" G c] j by simp
    with assms(2) have "int (SNP_indices G c ! j) < genome_length chr_index" by simp
    from chromosome_region [OF assms(1) this] j show ?thesis
      by (simp add: chromosomes_def)
  qed
  from mono each show ?thesis by blast
qed

theorem chromosome_attribution_witness:
  "cumulative_regions (chr_regions example_geno)
   \<and> int (length (rows example_G)) \<le> genome_length (chr_regions example_geno)
   \<and> SNP_indices example_G (1 / 10) = [0, 1]
   \<and> chromosomes (chr_regions example_geno) (SNP_indices example_G (1 / 10)) = [1, 2]
   \<and> chr_regions example_geno = [(0, 1), (1, 3)]"
proof -
  have c: "cumulative_regions (chr_regions example_geno)"
    by (simp add: cumulative_regions_def example_geno_def)
  have l: "int (length (rows example_G)) \<le> genome_length (chr_regions example_geno)"
    by (simp add: genome_length_def example_geno_def example_G_def)
  have v: "chromosomes (chr_regions example_geno) (SNP_indices example_G (1 / 10)) = [1, 2]"
    by code_simp
  have r: "chr_regions example_geno = [(0, 1), (1, 3)]"
    by (simp add: example_geno_def)
  show ?thesis
    using chromosome_attribution [OF c l, of "1 / 10"] c l v r example_SNP_indices
    by simp
qed

section \<open>Loading and aligning the phenotype\<close>

lemma str_nat_simps:
  "n < 10 \<Longrightarrow> str_nat n = [digit_char n]"
  "\<not> n < 10 \<Longrightarrow> str_nat n = str_nat (n div 10) @ [digit_char (n mod 10)]"
  by (subst str_nat.simps, simp)+

lemma str_nat_not_Nil: "str_nat n \<noteq> []"
  by (cases "n < 10") (simp_all add: str_nat_simps)

lemma digit_char_inj:
  assumes "a < 10" "b < 10" "digit_char a = digit_char b"
  shows "a = b"
proof -
  from assms(3) have "of_char (char_of (48 + a)) = (of_char (char_of (48 + b)) :: nat)"
    by (simp add: digit_char_def)
  then have "(48 + a) mod 256 = (48 + b) mod 256"
    by (simp only: of_char_of)
  with assms(1,2) show ?thesis by simp
qed

lemma digit_char_not_minus:
  assumes "d < 10"
  shows "digit_char d \<noteq> CHR ''-''"
proof
  assume "digit_char d = CHR ''-''"
  then have "of_char (char_of (48 + d)) = (of_char (CHR ''-'') :: nat)"
    by (simp add: digit_char_def)
  then have "(48 + d) mod 256 = 45"
    by (simp only: of_char_of) simp
  with assms show False by simp
qed

lemma str_nat_inj: "str_nat n = str_nat m \<Longrightarrow> n = m"
proof (induction n arbitrary: m rule: str_nat.induct)
  case (1 n)
  show ?case
  proof (cases "n < 10")
    case small: True
    show ?thesis
    proof (cases "m < 10")
      case True
      with small "1.prems" show ?thesis
        by (simp add: str_nat_simps digit_char_inj)
    next
      case False
      with small "1.prems" show ?thesis
        using str_nat_not_Nil [of "m div 10"] by (simp add: str_nat_simps)
    qed
  next
    case big: False
    show ?thesis
    proof (cases "m < 10")
      case True
      with big "1.prems" show ?thesis
        using str_nat_not_Nil [of "n div 10"] by (simp add: str_nat_simps)
    next
      case False
      with big "1.prems" have "str_nat (n div 10) = str_nat (m div 10)"
        and d: "digit_char (n mod 10) = digit_char (m mod 10)"
        by (simp_all add: str_nat_simps)
      with "1.IH" big have q: "n div 10 = m div 10" by simp
      from d have r: "n mod 10 = m mod 10" by (rule digit_char_inj [rotated 2]) simp_all
      from q r show ?thesis by (metis div_mult_mod_eq)
    qed
  qed
qed

lemma hd_str_nat_not_minus: "hd (str_nat n) \<noteq> CHR ''-''"
proof (induction n rule: str_nat.induct)
  case (1 n)
  show ?case
  proof (cases "n < 10")
    case True
    then show ?thesis by (simp add: str_nat_simps digit_char_not_minus)
  next
    case False
    with "1.IH" show ?thesis
      using str_nat_not_Nil [of "n div 10"] by (simp add: str_nat_simps)
  qed
qed

lemma str_int_inj: "str_int i = str_int j \<Longrightarrow> i = j"
proof -
  assume eq: "str_int i = str_int j"
  have sign: "(i < 0) = (j < 0)"
  proof (rule ccontr)
    assume "(i < 0) \<noteq> (j < 0)"
    then consider "i < 0" "\<not> j < 0" | "\<not> i < 0" "j < 0" by blast
    then show False
    proof cases
      case 1
      with eq have "hd (str_nat (nat j)) = CHR ''-''" by (simp add: str_int_def) (metis list.sel(1))
      then show False using hd_str_nat_not_minus by blast
    next
      case 2
      with eq have "hd (str_nat (nat i)) = CHR ''-''" by (simp add: str_int_def)
      then show False using hd_str_nat_not_minus by blast
    qed
  qed
  show "i = j"
  proof (cases "i < 0")
    case True
    with sign eq have "str_nat (nat (- i)) = str_nat (nat (- j))" by (simp add: str_int_def)
    then have "nat (- i) = nat (- j)" by (rule str_nat_inj)
    with True sign show ?thesis by simp
  next
    case False
    with sign eq have "str_nat (nat i) = str_nat (nat j)" by (simp add: str_int_def)
    then have "nat i = nat j" by (rule str_nat_inj)
    with False sign show ?thesis by simp
  qed
qed

lemma sequence_all_Inr:
  assumes "\<forall>x\<in>set xs. f x = Inr (h x)"
  shows "sequence (map f xs) = Inr (map h xs)"
proof -
  have "map f xs = map Inr (map h xs)" using assms by simp
  then show ?thesis by (simp only: sequence_map_Inr)
qed

lemma np_where_eq_first:
  assumes "x \<in> set arr"
  shows "np_where_eq arr x \<noteq> []"
    and "hd (np_where_eq arr x) < length arr"
    and "arr ! hd (np_where_eq arr x) = x"
proof -
  from assms obtain i where "i < length arr" "arr ! i = x"
    by (auto simp: in_set_conv_nth)
  then have "i \<in> set (np_where_eq arr x)" by (simp add: np_where_eq_def)
  then show ne: "np_where_eq arr x \<noteq> []" by auto
  then have "hd (np_where_eq arr x) \<in> set (np_where_eq arr x)" by simp
  then show "hd (np_where_eq arr x) < length arr" and "arr ! hd (np_where_eq arr x) = x"
    by (simp_all add: np_where_eq_def)
qed

lemma first_index_found:
  assumes "x \<in> set arr"
  shows "first_index arr x = Inr (hd (np_where_eq arr x))"
  using np_where_eq_first(1) [OF assms] by (cases "np_where_eq arr x") (simp_all add: first_index_def)

lemma filter_key_distinct:
  assumes "distinct (map fst df)" "k \<in> fst ` set df"
  shows "filter (\<lambda>r. fst r = k) df = [(k, the (map_of df k))]"
  using assms
proof (induction df)
  case Nil
  then show ?case by simp
next
  case (Cons r df)
  obtain a v where r: "r = (a, v)" by (cases r)
  show ?case
  proof (cases "a = k")
    case True
    with Cons.prems r have "k \<notin> fst ` set df" by auto
    then have "filter (\<lambda>r. fst r = k) df = []" by (auto simp: filter_empty_conv)
    with True r show ?thesis by simp
  next
    case False
    with Cons r show ?thesis by auto
  qed
qed

lemma loc_distinct:
  assumes "distinct (map fst df)" "set keys \<subseteq> fst ` set df"
  shows "loc df keys = Inr (map (\<lambda>k. (k, the (map_of df k))) keys)"
proof -
  have "concat (map (\<lambda>k. filter (\<lambda>r. fst r = k) df) keys)
        = map (\<lambda>k. (k, the (map_of df k))) keys"
    using assms(2)
  proof (induction keys)
    case Nil
    then show ?case by simp
  next
    case (Cons k keys)
    then have "k \<in> fst ` set df" by simp
    from filter_key_distinct [OF assms(1) this] Cons show ?case by simp
  qed
  moreover have "list_all (\<lambda>k. k \<in> set (map fst df)) keys"
    using assms(2) by (auto simp: list_all_iff)
  ultimately show ?thesis by (simp add: loc_def)
qed

lemma loc_keyed:
  assumes "distinct ks"
  shows "loc (map (\<lambda>k. (k, g k)) ks) keys
         = (if set keys \<subseteq> set ks then Inr (map (\<lambda>k. (k, g k)) keys) else Inl KeyError)"
proof -
  have d: "distinct (map fst (map (\<lambda>k. (k, g k)) ks))"
    using assms by (simp add: comp_def)
  have s: "fst ` set (map (\<lambda>k. (k, g k)) ks) = set ks" by force
  show ?thesis
  proof (cases "set keys \<subseteq> set ks")
    case True
    have "map_of (map (\<lambda>k. (k, g k)) ks) k = Some (g k)" if "k \<in> set ks" for k
      using that by (induction ks) auto
    then have "map (\<lambda>k. (k, the (map_of (map (\<lambda>k. (k, g k)) ks) k))) keys
               = map (\<lambda>k. (k, g k)) keys"
      using True by (intro map_cong) auto
    with loc_distinct [OF d, of keys] True s show ?thesis by simp
  next
    case False
    then have "\<not> list_all (\<lambda>k. k \<in> set (map fst (map (\<lambda>k. (k, g k)) ks))) keys"
      by (auto simp: list_all_iff comp_def)
    with False show ?thesis by (simp add: loc_def)
  qed
qed

lemma section_3a_distinct:
  assumes "distinct (map fst pheno)"
  shows "section_3a pheno accs =
           (case h5_take accs
                   (sort (map (\<lambda>k. hd (np_where_eq accs k))
                            (filter (\<lambda>acn. acn \<in> set accs) (map fst pheno)))) of
              Inl e \<Rightarrow> Inl e
            | Inr acn_order \<Rightarrow>
                if set acn_order \<subseteq> set (filter (\<lambda>acn. acn \<in> set accs) (map fst pheno))
                then Inr (map (\<lambda>k. (k, the (map_of pheno k))) acn_order,
                          sort (map (\<lambda>k. hd (np_where_eq accs k))
                                  (filter (\<lambda>acn. acn \<in> set accs) (map fst pheno))),
                          to_numpy (map (\<lambda>k. (k, the (map_of pheno k))) acn_order))
                else Inl KeyError)"
proof -
  let ?K = "filter (\<lambda>acn. acn \<in> set accs) (map fst pheno)"
  let ?g = "\<lambda>k. (k, the (map_of pheno k))"
  have dK: "distinct ?K" using assms by simp
  have l1: "loc pheno ?K = Inr (map ?g ?K)"
    by (rule loc_distinct [OF assms]) auto
  have keys: "map fst (map ?g ?K) = ?K" by (simp add: comp_def)
  have sq: "sequence (map (first_index accs) ?K)
            = Inr (map (\<lambda>k. hd (np_where_eq accs k)) ?K)"
    by (rule sequence_all_Inr) (simp add: first_index_found)
  have "section_3a pheno accs =
          (case h5_take accs (sort (map (\<lambda>k. hd (np_where_eq accs k)) ?K)) of
             Inl e \<Rightarrow> Inl e
           | Inr acn_order \<Rightarrow>
               (case loc (map ?g ?K) acn_order of
                  Inl e \<Rightarrow> Inl e
                | Inr pheno2 \<Rightarrow>
                    Inr (pheno2, sort (map (\<lambda>k. hd (np_where_eq accs k)) ?K), to_numpy pheno2)))"
    unfolding section_3a_def Let_def by (simp only: l1 sum.case keys sq)
  then show ?thesis
    by (simp add: loc_keyed [OF dK] split: sum.splits)
qed

lemma section_3a_permutation:
  assumes "distinct (map fst pheno)" and "mset pheno' = mset pheno"
  shows "section_3a pheno' accs = section_3a pheno accs"
proof -
  let ?K = "filter (\<lambda>acn. acn \<in> set accs) (map fst pheno)"
  let ?K' = "filter (\<lambda>acn. acn \<in> set accs) (map fst pheno')"
  have mk: "mset (map fst pheno') = mset (map fst pheno)"
    using assms(2) by simp
  have d': "distinct (map fst pheno')"
    using mset_eq_imp_distinct_iff [OF mk] assms(1) by simp
  have mK: "mset ?K' = mset ?K" using mk by (simp add: mset_filter)
  have sK: "set ?K' = set ?K" using mK by (rule mset_eq_setD)
  have "mset (map (\<lambda>k. hd (np_where_eq accs k)) ?K')
        = mset (map (\<lambda>k. hd (np_where_eq accs k)) ?K)"
    using mK by simp
  then have idx: "sort (map (\<lambda>k. hd (np_where_eq accs k)) ?K')
                  = sort (map (\<lambda>k. hd (np_where_eq accs k)) ?K)"
    by (intro properties_for_sort) simp_all
  have "set pheno' = set pheno" using assms(2) by (rule mset_eq_setD)
  then have mo: "map_of pheno' = map_of pheno"
    using map_of_inject_set [OF d' assms(1)] by simp
  show ?thesis
    unfolding section_3a_distinct [OF assms(1)] section_3a_distinct [OF d'] idx sK mo ..
qed

lemma strict_sorted_sort:
  assumes "distinct xs"
  shows "sorted_wrt (<) (sort xs)"
  using assms by (simp add: strict_sorted_iff)

lemma section_3a_total:
  assumes "distinct (map fst pheno)"
  shows "\<exists>acn_indices.
           sorted_wrt (<) acn_indices
           \<and> set acn_indices \<subseteq> {..<length accs}
           \<and> set (map (\<lambda>i. accs ! i) acn_indices) = set (map fst pheno) \<inter> set accs
           \<and> (\<forall>i\<in>set acn_indices. hd (np_where_eq accs (accs ! i)) = i)
           \<and> section_3a pheno accs =
               Inr (map (\<lambda>k. (k, the (map_of pheno k))) (map (\<lambda>i. accs ! i) acn_indices),
                    acn_indices,
                    to_numpy (map (\<lambda>k. (k, the (map_of pheno k))) (map (\<lambda>i. accs ! i) acn_indices)))"
proof -
  define K where "K = filter (\<lambda>acn. acn \<in> set accs) (map fst pheno)"
  define h where "h = (\<lambda>k. hd (np_where_eq accs k))"
  define idx where "idx = sort (map h K)"
  have dK: "distinct K" using assms by (simp add: K_def)
  have setK: "set K = set (map fst pheno) \<inter> set accs" by (auto simp: K_def)
  have h_lt: "h k < length accs" and h_at: "accs ! h k = k" if "k \<in> set K" for k
    using np_where_eq_first(2,3) [of k accs] that by (simp_all add: h_def setK)
  have "inj_on h (set K)"
  proof (rule inj_onI)
    fix a b assume "a \<in> set K" "b \<in> set K" "h a = h b"
    then show "a = b" using h_at [of a] h_at [of b] by metis
  qed
  with dK have "distinct (map h K)" by (simp add: distinct_map)
  then have strict: "sorted_wrt (<) idx"
    unfolding idx_def by (rule strict_sorted_sort)
  have set_idx: "set idx = h ` set K" by (simp add: idx_def)
  have rng: "set idx \<subseteq> {..<length accs}"
    unfolding set_idx using h_lt by blast
  have ord: "set (map (\<lambda>i. accs ! i) idx) = set K"
  proof -
    have "set (map (\<lambda>i. accs ! i) idx) = (\<lambda>i. accs ! i) ` h ` set K"
      by (simp only: set_map set_idx)
    also have "\<dots> = (\<lambda>k. accs ! h k) ` set K"
      by (simp only: image_image)
    also have "\<dots> = (\<lambda>k. k) ` set K"
      by (rule image_cong [OF refl]) (rule h_at)
    also have "\<dots> = set K" by simp
    finally show ?thesis .
  qed
  have take: "h5_take accs idx = Inr (map (\<lambda>i. accs ! i) idx)"
    using strict rng by (simp add: h5_take_def list_all_iff subset_iff)
  have res: "section_3a pheno accs =
          Inr (map (\<lambda>k. (k, the (map_of pheno k))) (map (\<lambda>i. accs ! i) idx), idx,
               to_numpy (map (\<lambda>k. (k, the (map_of pheno k))) (map (\<lambda>i. accs ! i) idx)))"
    unfolding section_3a_distinct [OF assms] K_def [symmetric] h_def [symmetric] idx_def [symmetric]
    by (simp only: take sum.case ord subset_refl if_True)
  have both: "set (map (\<lambda>i. accs ! i) idx) = set (map fst pheno) \<inter> set accs"
    by (simp only: ord setK)
  have firsts: "\<forall>i\<in>set idx. hd (np_where_eq accs (accs ! i)) = i"
  proof
    fix i assume "i \<in> set idx"
    then obtain k where k: "k \<in> set K" and i: "i = h k" unfolding set_idx by blast
    from h_at [OF k] i have "accs ! i = k" by simp
    with i show "hd (np_where_eq accs (accs ! i)) = i" by (simp add: h_def)
  qed
  show ?thesis
    by (rule exI [of _ idx]) (intro conjI strict rng both firsts res)
qed

lemma section_2a_distinct:
  assumes "distinct (map fst csv_rows)"
  shows "distinct (map fst (section_2a csv_rows))"
proof -
  have "map fst (encode_index csv_rows) = map str_int (map fst csv_rows)"
    by (simp add: encode_index_def comp_def split_def)
  moreover have "inj_on str_int (set (map fst csv_rows))"
    by (rule inj_onI) (rule str_int_inj)
  moreover have "distinct (map str_int (map fst csv_rows))"
    unfolding distinct_map [of str_int "map fst csv_rows"]
    using assms inj_onI [of "set (map fst csv_rows)" str_int] str_int_inj by blast
  ultimately have "distinct (map fst (encode_index csv_rows))"
    by simp
  then show ?thesis
    unfolding section_2a_def dropna_def by (rule distinct_map_filter)
qed

lemma section_2a_mset:
  assumes "mset csv_rows' = mset csv_rows"
  shows "mset (section_2a csv_rows') = mset (section_2a csv_rows)"
  using assms by (simp add: section_2a_def dropna_def encode_index_def)

text \<open>
  C8. Loading the phenotype does not depend on the order of the rows of the file: for a
  table whose accession keys are all different and any rearrangement of its rows,
  sections 2a and 3a yield the same reordered table, the same \<open>acn_indices\<close> and the
  same matrix \<open>Y\<close>; and they do yield a result when at least one phenotyped accession
  is genotyped.
\<close>

theorem phenotype_load_order_irrelevant:
  assumes "distinct (map fst csv_rows)" and "mset csv_rows' = mset csv_rows"
  shows "section_3a (section_2a csv_rows') accs = section_3a (section_2a csv_rows) accs
         \<and> (list_ex (\<lambda>acn. acn \<in> set accs) (map fst (section_2a csv_rows)) \<longrightarrow>
               (\<exists>pheno acn_indices Y.
                  section_3a (section_2a csv_rows) accs = Inr (pheno, acn_indices, Y)))"
proof -
  have d: "distinct (map fst (section_2a csv_rows))"
    by (rule section_2a_distinct [OF assms(1)])
  have "section_3a (section_2a csv_rows') accs = section_3a (section_2a csv_rows) accs"
    by (rule section_3a_permutation [OF d section_2a_mset [OF assms(2)]])
  moreover have "\<exists>pheno acn_indices Y.
               section_3a (section_2a csv_rows) accs = Inr (pheno, acn_indices, Y)"
  proof -
    from section_3a_total [OF d, of accs] obtain acn_indices where
      "section_3a (section_2a csv_rows) accs =
         Inr (map (\<lambda>k. (k, the (map_of (section_2a csv_rows) k))) (map (\<lambda>i. accs ! i) acn_indices),
              acn_indices,
              to_numpy (map (\<lambda>k. (k, the (map_of (section_2a csv_rows) k)))
                          (map (\<lambda>i. accs ! i) acn_indices)))"
      by (elim exE conjE)
    then show ?thesis by (intro exI)
  qed
  ultimately show ?thesis by simp
qed

lemma example_section_3a:
  "section_3a (section_2a example_csv) [''108'', ''139'', ''159'', ''265'', ''350'']
   = Inr (example_pheno, [0, 1, 3, 4],
          \<lparr>shape0 = 4, shape1 = 1,
           rows = [[Finite (353 / 4)], [Finite 50], [Finite 72], [Finite 68]]\<rparr>)"
  by code_simp

theorem phenotype_load_order_irrelevant_witness:
  "distinct (map fst example_csv) \<and> mset example_csv_shuffled = mset example_csv
   \<and> list_ex (\<lambda>acn. acn \<in> set [''108'', ''139'', ''159'', ''265'', ''350''])
         (map fst (section_2a example_csv))
   \<and> section_3a (section_2a example_csv_shuffled) [''108'', ''139'', ''159'', ''265'', ''350'']
       = Inr (example_pheno, [0, 1, 3, 4],
              \<lparr>shape0 = 4, shape1 = 1,
               rows = [[Finite (353 / 4)], [Finite 50], [Finite 72], [Finite 68]]\<rparr>)"
proof -
  have d: "distinct (map fst example_csv)"
    by (simp add: example_csv_def)
  have m: "mset example_csv_shuffled = mset example_csv"
    by (simp add: example_csv_def example_csv_shuffled_def)
  have e: "list_ex (\<lambda>acn. acn \<in> set [''108'', ''139'', ''159'', ''265'', ''350''])
             (map fst (section_2a example_csv))"
    by code_simp
  show ?thesis
    using phenotype_load_order_irrelevant [OF d m, of "[''108'', ''139'', ''159'', ''265'', ''350'']"]
      d m e example_section_3a
    by simp
qed

text \<open>
  C1, evaluated where the code departs from it. The kinship file lists the accessions
  in the opposite order to the genotype file. Sections 3a to 3c complete; the rows of
  \<open>Y\<close> and of \<open>G\<close> stand for the accessions 108, 139, 265, 350 in this order, the
  order of the genotype file, while the rows and columns of \<open>K\<close> stand for 350, 265,
  139, 108, the order of the kinship file.
\<close>

theorem prepare_kinship_file_order:
  "prepare (section_2a example_csv) example_geno example_kin_reversed (1 / 10) =
     Inr \<lparr>prep_Y = \<lparr>shape0 = 4, shape1 = 1,
                      rows = [[Finite (353 / 4)], [Finite 50], [Finite 72], [Finite 68]]\<rparr>,
          prep_G = \<lparr>shape0 = 4, shape1 = 2, rows = [[0, 0], [1, 0], [1, 1], [1, 1]]\<rparr>,
          prep_K = \<lparr>shape0 = 4, shape1 = 4,
                      rows = [[Finite 25, Finite 20, Finite 10, Finite 5],
                              [Finite 20, Finite 16, Finite 8, Finite 4],
                              [Finite 10, Finite 8, Finite 4, Finite 2],
                              [Finite 5, Finite 4, Finite 2, Finite 1]]\<rparr>,
          Y_acn = [''108'', ''139'', ''265'', ''350''],
          G_acn = [''108'', ''139'', ''265'', ''350''],
          K_acn = [''350'', ''265'', ''139'', ''108'']\<rparr>"
  by code_simp

lemma section_3c_indices:
  assumes "section_3c pheno ka ks = Inr (kin_indices, K)"
    and "sequence (map (first_index ka) (map fst pheno)) = Inr found"
  shows "kin_indices = sort found"
  using assms by (auto simp: section_3c_def Let_def split: sum.splits)

lemma prepare_Y_G_aligned:
  assumes "distinct (map fst pheno)" and "prepare pheno geno kin maf_cutoff = Inr r"
  shows "Y_acn r = G_acn r"
proof -
  from section_3a_total [OF assms(1), of "accessions geno"] obtain idx where
    s: "section_3a pheno (accessions geno) =
          Inr (map (\<lambda>k. (k, the (map_of pheno k))) (map (\<lambda>i. accessions geno ! i) idx), idx,
               to_numpy (map (\<lambda>k. (k, the (map_of pheno k))) (map (\<lambda>i. accessions geno ! i) idx)))"
    by (elim exE conjE)
  from assms(2) show ?thesis
    unfolding prepare_def s by (auto simp: comp_def split: sum.splits)
qed

text \<open>
  When the kinship file lists its accessions exactly as the genotype file does, the
  three matrices do share one order.
\<close>

lemma prepare_aligned_same_accessions:
  assumes "distinct (map fst pheno)"
    and "kin_accessions kin = accessions geno"
    and "prepare pheno geno kin maf_cutoff = Inr r"
  shows "Y_acn r = G_acn r \<and> K_acn r = G_acn r"
proof -
  let ?accs = "accessions geno"
  from section_3a_total [OF assms(1), of ?accs] obtain idx where
    strict: "sorted_wrt (<) idx" and rng: "set idx \<subseteq> {..<length ?accs}"
    and firsts: "\<forall>i\<in>set idx. hd (np_where_eq ?accs (?accs ! i)) = i"
    and s: "section_3a pheno ?accs =
          Inr (map (\<lambda>k. (k, the (map_of pheno k))) (map (\<lambda>i. ?accs ! i) idx), idx,
               to_numpy (map (\<lambda>k. (k, the (map_of pheno k))) (map (\<lambda>i. ?accs ! i) idx)))"
    by (elim exE conjE)
  let ?pheno2 = "map (\<lambda>k. (k, the (map_of pheno k))) (map (\<lambda>i. ?accs ! i) idx)"
  have keys: "map fst ?pheno2 = map (\<lambda>i. ?accs ! i) idx" by (simp add: comp_def)
  have "first_index ?accs (?accs ! i) = Inr i" if "i \<in> set idx" for i
  proof -
    from that rng have "?accs ! i \<in> set ?accs" by auto
    from first_index_found [OF this] firsts that show ?thesis by simp
  qed
  then have "map (first_index ?accs) (map (\<lambda>i. ?accs ! i) idx) = map Inr idx" by simp
  then have found: "sequence (map (first_index ?accs) (map fst ?pheno2)) = Inr idx"
    unfolding keys by (simp only: sequence_map_Inr)
  have sorted_idx: "sort idx = idx"
    using strict by (simp add: strict_sorted_iff sort_key_id_if_sorted)
  from assms(3) obtain G0 kin_indices K where
    c: "section_3c ?pheno2 ?accs (kinship kin) = Inr (kin_indices, K)"
    and r: "r = \<lparr>prep_Y = to_numpy ?pheno2, prep_G = np_transpose (filter_SNPs G0 maf_cutoff),
                prep_K = K, Y_acn = map fst ?pheno2, G_acn = map (\<lambda>i. ?accs ! i) idx,
                K_acn = map (\<lambda>i. ?accs ! i) kin_indices\<rparr>"
    unfolding prepare_def s assms(2) by (auto split: sum.splits)
  from section_3c_indices [OF c found] sorted_idx have "kin_indices = idx" by simp
  with r keys show ?thesis by simp
qed

section \<open>The input checks\<close>

lemma two_dimensional_shape:
  assumes "two_dimensional X" "isinstance_ndarray X"
  obtains a b x where "X = Ndarray [a, b] x"
proof -
  from assms obtain s x where X: "X = Ndarray s x" and l: "length s = 2"
    by (cases X) auto
  from l obtain a b where "s = [a, b]"
    by (cases s; cases "tl s") auto
  with X that show thesis by blast
qed

lemma section_4a_matrix:
  assumes "var_Y v = Ndarray [n, c] x"
  shows "section_4a v =
           (if c \<noteq> 1
            then Inl (ValueError (''Number of columns in Y must be 1, but got '' @ str_nat c))
            else Inr (v\<lparr>printed := printed v @
                        [''Everything is fine'', ''Number of Accessions is '' @ str_nat n]\<rparr>))"
  using assms by (simp add: section_4a_def)

lemma section_4b_matrix:
  assumes "var_Y v = Ndarray [n, c] x" "var_G v = Ndarray [g0, g1] y"
  shows "section_4b v =
           (if g0 \<noteq> n
            then Inl (ValueError
                   (''Number of columns in G must be equal to the number of accession ''
                    @ str_nat n @ '', but got '' @ str_nat g0))
            else Inr (v\<lparr>printed := printed v @
                        [''Everything is fine'', ''Number of SNPs is '' @ str_nat g1]\<rparr>))"
  using assms by (simp add: section_4b_def)

lemma section_4c_matrix:
  assumes "var_Y v = Ndarray [n, c] x" "var_K v = Ndarray [k0, k1] z"
  shows "section_4c v =
           (if k0 \<noteq> n \<or> k1 \<noteq> n then Inl (ValueError (K_message n [k0, k1]))
            else Inr (v\<lparr>printed := printed v @ [''Everything is fine'']\<rparr>))"
  using assms by (simp add: section_4c_def)

text \<open>
  C7. For variables that are each either not a numpy array or a numpy array of two
  dimensions, section 4 fails with one of its own messages if and only if a check is
  violated; when none is, it raises nothing and leaves \<open>Y\<close>, \<open>G\<close> and \<open>K\<close> as they
  were, only printing.
\<close>

theorem section_4_checks:
  assumes "two_dimensional (var_Y v)" "two_dimensional (var_G v)" "two_dimensional (var_K v)"
  shows "user_facing (section_4 v) = check_violated v
         \<and> (\<not> check_violated v \<longrightarrow>
               (\<exists>out. section_4 v = Inr (v\<lparr>printed := out\<rparr>)))"
proof (cases "isinstance_ndarray (var_Y v)")
  case False
  then have "section_4 v = Inl (ValueError ''Y must be a numpy array'')"
    by (simp add: section_4_def section_4a_def)
  with False show ?thesis by (simp add: check_violated_def)
next
  case Y: True
  from two_dimensional_shape [OF assms(1) Y] obtain n c x where y: "var_Y v = Ndarray [n, c] x" .
  show ?thesis
  proof (cases "c = 1")
    case False
    with y have "section_4 v
                 = Inl (ValueError (''Number of columns in Y must be 1, but got '' @ str_nat c))"
      by (simp add: section_4_def section_4a_matrix)
    with False y show ?thesis by (simp add: check_violated_def dim_def)
  next
    case c1: True
    define v1 where "v1 = v\<lparr>printed := printed v @
                        [''Everything is fine'', ''Number of Accessions is '' @ str_nat n]\<rparr>"
    have a: "section_4a v = Inr v1" using y c1 by (simp add: section_4a_matrix v1_def)
    have y1: "var_Y v1 = Ndarray [n, c] x" and g1: "var_G v1 = var_G v" and k1: "var_K v1 = var_K v"
      using y by (simp_all add: v1_def)
    show ?thesis
    proof (cases "isinstance_ndarray (var_G v)")
      case False
      then have "section_4 v = Inl (ValueError ''G must be a numpy array'')"
        by (simp add: section_4_def a section_4b_def g1)
      with False show ?thesis by (simp add: check_violated_def)
    next
      case G: True
      from two_dimensional_shape [OF assms(2) G] obtain g0 g1' y' where
        g: "var_G v = Ndarray [g0, g1'] y'" .
      show ?thesis
      proof (cases "g0 = n")
        case False
        with y1 g g1 have "section_4 v = Inl (ValueError
                   (''Number of columns in G must be equal to the number of accession ''
                    @ str_nat n @ '', but got '' @ str_nat g0))"
          by (simp add: section_4_def a section_4b_matrix)
        with False y g show ?thesis by (simp add: check_violated_def dim_def)
      next
        case gn: True
        define v2 where "v2 = v1\<lparr>printed := printed v1 @
                        [''Everything is fine'', ''Number of SNPs is '' @ str_nat g1']\<rparr>"
        have b: "section_4b v1 = Inr v2"
          using y1 g g1 gn by (simp add: section_4b_matrix v2_def)
        have y2: "var_Y v2 = Ndarray [n, c] x" and k2: "var_K v2 = var_K v"
          using y1 k1 by (simp_all add: v2_def)
        have s4: "section_4 v = section_4c v2" by (simp add: section_4_def a b)
        show ?thesis
        proof (cases "isinstance_ndarray (var_K v)")
          case False
          then have "section_4 v = Inl (ValueError ''K must be a numpy array'')"
            by (simp add: s4 section_4c_def k2)
          with False show ?thesis by (simp add: check_violated_def)
        next
          case K: True
          from two_dimensional_shape [OF assms(3) K] obtain k0 k1' z where
            k: "var_K v = Ndarray [k0, k1'] z" .
          show ?thesis
          proof (cases "k0 \<noteq> n \<or> k1' \<noteq> n")
            case True
            with y2 k k2 have "section_4 v = Inl (ValueError (K_message n [k0, k1']))"
              by (simp add: s4 section_4c_matrix)
            with True y k show ?thesis by (auto simp: check_violated_def dim_def)
          next
            case False
            with y2 k k2 have r: "section_4 v = Inr (v2\<lparr>printed := printed v2 @ [''Everything is fine'']\<rparr>)"
              by (simp add: s4 section_4c_matrix)
            have nv: "\<not> check_violated v"
              using False y g k c1 gn by (simp add: check_violated_def dim_def)
            have "v2\<lparr>printed := printed v2 @ [''Everything is fine'']\<rparr>
                  = v\<lparr>printed := printed v2 @ [''Everything is fine'']\<rparr>"
              by (simp add: v2_def v1_def)
            with r nv show ?thesis by auto
          qed
        qed
      qed
    qed
  qed
qed

theorem section_4_checks_witness:
  "two_dimensional (var_Y example_vars) \<and> two_dimensional (var_G example_vars)
   \<and> two_dimensional (var_K example_vars) \<and> \<not> check_violated example_vars
   \<and> \<not> user_facing (section_4 example_vars)
   \<and> (\<exists>out. section_4 example_vars = Inr (example_vars\<lparr>printed := out\<rparr>))"
proof -
  have y: "two_dimensional (var_Y example_vars)" and g: "two_dimensional (var_G example_vars)"
    and k: "two_dimensional (var_K example_vars)"
    by (simp_all add: example_vars_def)
  have nv: "\<not> check_violated example_vars"
    by (simp add: check_violated_def dim_def example_vars_def)
  show ?thesis
    using section_4_checks [OF y g k] y g k nv by simp
qed

text \<open>
  C7 without the restriction to two dimensions does not hold: with a one-dimensional
  \<open>G\<close> of the right length no check is violated, and the cell of section 4b then
  raises IndexError when it prints \<open>G.shape[1]\<close>.
\<close>

theorem section_4_flat_G_counterexample:
  "\<not> check_violated example_vars_flat_G \<and> section_4 example_vars_flat_G = Inl IndexError"
  by (simp add: check_violated_def dim_def example_vars_flat_G_def section_4_def
      section_4a_def section_4b_def)


end
